theory Spec2Isabelle
  imports Main "HOL-Library.Signed_Division"
begin

section \<open>tracking.js: the tracker task and the frame sampling loop\<close>

text \<open>
  The development embeds \<^verbatim>\<open>TrackerTask\<close> (run/stop and the relay of the tracker's
  \<^verbatim>\<open>track\<close> events) and \<^verbatim>\<open>tracking.track\<close> with its three element kinds (canvas, img,
  video) as functions on an explicit state, the \<open>world\<close>: the fields of the task, the
  listener lists of the task and of its tracker, the closure variables of
  \<^verbatim>\<open>trackVideo_\<close>, and the part of the browser window the code talks to (pending animation
  frame requests, image loads, user media requests).

  Isabelle reserves names that end in an underscore, so \<^verbatim>\<open>running_\<close>, \<^verbatim>\<open>trackVideo_\<close>, ...
  lose theirs.

  Of the canvas the model keeps its width and height, its pixels and whether it is
  tainted: \<^verbatim>\<open>getImageData\<close> throws on a canvas without width or height and on a tainted
  one, and \<^verbatim>\<open>drawImage\<close> of a frame of another origin taints the canvas.

  Numbers: \<^verbatim>\<open>count\<close> and \<^verbatim>\<open>freq\<close> are integers (\<open>int\<close>); the remainder \<^verbatim>\<open>%\<close> is the
  truncating one of JavaScript, with \<^verbatim>\<open>NaN\<close> for a zero divisor. Fractional and
  non-numeric \<^verbatim>\<open>freq\<close> values are outside the model.
\<close>

subsection \<open>Values\<close>

datatype error = Error string | TypeError string | DOMException string

text \<open>What \<^verbatim>\<open>run()\<close> and \<^verbatim>\<open>stop()\<close> hand back: \<^verbatim>\<open>return;\<close> gives \<^verbatim>\<open>undefined\<close>,
  \<^verbatim>\<open>return this;\<close> gives the task.\<close>

datatype retval = Undefined | This

text \<open>
  The tracker is an external collaborator. \<^verbatim>\<open>tracker.track(pixels, width, height)\<close> is a
  function of its arguments: the detections it emits on its own \<^verbatim>\<open>track\<close> stream, in
  order, and then the error it throws, if any (\<^verbatim>\<open>ObjectTracker.track\<close> throws when no
  classifier is set, and emits one event otherwise). Pixels are \<open>None\<close> for a canvas
  nothing has been drawn on.
\<close>

type_synonym ('p, 'e) tracker = "'p option \<Rightarrow> nat \<Rightarrow> nat \<Rightarrow> 'e list \<times> error option"

text \<open>
  Listeners are closures; the model names the ones the program creates.
  On the tracker's \<^verbatim>\<open>track\<close> stream: the relay \<^verbatim>\<open>reemitTrackEvent_\<close> that the \<open>k\<close>-th
  closure creation of \<^verbatim>\<open>run()\<close> made, or a listener of the caller's, which records what it
  receives.
\<close>

datatype tracker_listener = Reemit nat | TrackerClient nat

text \<open>
  On the task's \<^verbatim>\<open>run\<close> and \<^verbatim>\<open>stop\<close> signals: the listeners \<^verbatim>\<open>trackCanvas_\<close>,
  \<^verbatim>\<open>trackImg_\<close> and \<^verbatim>\<open>trackVideo_\<close> register, a listener of the caller's that records the
  signal, and a listener of the caller's that has the tracker emit a detection (a
  detection in flight while the signal is dispatched).
\<close>

datatype 'e task_listener =
    CanvasRun
  | ImgRun
  | VideoRun
  | VideoStop
  | Client nat
  | Inject 'e

record 'p element =
  nodeName :: string
  elem_width :: nat
  elem_height :: nat
  offsetWidth :: nat
  offsetHeight :: nat
  elem_pixels :: "'p option"
  elem_tainted :: bool

text \<open>The first argument of \<^verbatim>\<open>track\<close>: a CSS selector, a DOM element, or \<^verbatim>\<open>null\<close>/\<^verbatim>\<open>undefined\<close>.\<close>

datatype 'p handle = Selector string | Node "'p element" | Null

text \<open>\<^verbatim>\<open>document.querySelector\<close>: the first element that matches, or \<^verbatim>\<open>null\<close>.\<close>

type_synonym 'p document = "string \<Rightarrow> 'p element option"

text \<open>
  \<^verbatim>\<open>opt_options\<close>, when it is an object: \<open>opt_freq\<close> is \<open>None\<close> when the object has no property
  \<^verbatim>\<open>freq\<close>; \<open>opt_camera\<close> and \<open>opt_audio\<close> are the truth values of its properties
  \<^verbatim>\<open>camera\<close> and \<^verbatim>\<open>audio\<close>.
\<close>

record options =
  opt_freq :: "int option"
  opt_camera :: bool
  opt_audio :: bool

text \<open>What one animation frame shows of the video element: whether its
  \<^verbatim>\<open>readyState\<close> is \<^verbatim>\<open>HAVE_ENOUGH_DATA\<close>, whether \<^verbatim>\<open>drawImage\<close> throws, the frame, and
  whether the frame comes from another origin (drawing it taints the canvas).\<close>

record 'p tick =
  ready :: bool
  copy_fault :: bool
  frame :: 'p
  cross_origin :: bool

record ('p, 'e) world =
  \<comment> \<open>the tracker: its listeners on \<^verbatim>\<open>track\<close>\<close>
  tracker_events :: "tracker_listener list"
  \<comment> \<open>the fields of the TrackerTask\<close>
  tracker :: "('p, 'e) tracker option"
  running :: bool
  reemitTrackEvent :: "nat option"
  on_run :: "'e task_listener list"
  on_stop :: "'e task_listener list"
  on_track :: "nat list"
  \<comment> \<open>the canvas that \<^verbatim>\<open>trackCanvasInternal_\<close> reads, and the image of \<^verbatim>\<open>trackImg_\<close>\<close>
  canvas_width :: nat
  canvas_height :: nat
  canvas_pixels :: "'p option"
  canvas_tainted :: bool
  image :: "'p option"
  image_tainted :: bool
  \<comment> \<open>the closure variables of \<^verbatim>\<open>trackVideo_\<close>\<close>
  width :: nat
  height :: nat
  freq :: int
  requestId :: "nat option"
  count :: int
  \<comment> \<open>the window\<close>
  frame_requests :: "nat list"
  next_request :: nat
  image_loads :: nat
  media_requests :: "bool list"
  \<comment> \<open>history, for the statements only\<close>
  closures :: nat
  ticks :: nat
  signals :: "string list"
  heard :: "(nat \<times> string) list"
  relayed :: "(nat \<times> 'e) list"
  tracker_heard :: "(nat \<times> 'e) list"
  tracked :: "(nat \<times> 'p option \<times> nat \<times> nat) list"
  uncaught :: "error list"

subsection \<open>EventEmitter\<close>

text \<open>
  Modelled from the spec: \<^verbatim>\<open>utils/EventEmitter\<close> (\<^verbatim>\<open>on\<close>, \<^verbatim>\<open>emit\<close>, \<^verbatim>\<open>removeListener\<close>), the
  base class of the task and of the tracker, is not among the sources. It is a per-instance
  publish/subscribe mechanism: \<^verbatim>\<open>on\<close> appends a listener to the event's list, \<^verbatim>\<open>emit\<close>
  calls the event's listeners in the order of registration, \<^verbatim>\<open>removeListener\<close> takes
  one registration of the listener out. The lists are typed by event: \<^verbatim>\<open>run\<close> and
  \<^verbatim>\<open>stop\<close> listeners of the task, \<^verbatim>\<open>track\<close> listeners of the task (the caller's, which
  record the detection), \<^verbatim>\<open>track\<close> listeners of the tracker.
\<close>

text \<open>Modelled from the spec: \<^verbatim>\<open>EventEmitter.on(event, listener)\<close> subscribes the
  listener, after the ones already there.\<close>

definition on :: "string \<Rightarrow> 'e task_listener \<Rightarrow> ('p, 'e) world \<Rightarrow> ('p, 'e) world" where
  "on ev l w =
     (if ev = ''run'' then w\<lparr>on_run := on_run w @ [l]\<rparr>
      else if ev = ''stop'' then w\<lparr>on_stop := on_stop w @ [l]\<rparr>
      else w)"

text \<open>Modelled from the spec: the listeners of an event of the task, in the order of
  their registration.\<close>

definition listeners :: "string \<Rightarrow> ('p, 'e) world \<Rightarrow> 'e task_listener list" where
  "listeners ev w =
     (if ev = ''run'' then on_run w else if ev = ''stop'' then on_stop w else [])"

text \<open>Modelled from the spec: \<^verbatim>\<open>this.tracker_.on('track', listener)\<close>, the same
  operation on the tracker, which is an \<^verbatim>\<open>EventEmitter\<close> too.\<close>

definition tracker_on :: "tracker_listener \<Rightarrow> ('p, 'e) world \<Rightarrow> ('p, 'e) world" where
  "tracker_on l w = w\<lparr>tracker_events := tracker_events w @ [l]\<rparr>"

text \<open>Modelled from the spec: \<^verbatim>\<open>this.tracker_.removeListener('track', listener)\<close>
  removes the subscription of the listener, one registration of it; for a listener that
  is \<^verbatim>\<open>undefined\<close> there is nothing to remove.\<close>

definition tracker_removeListener :: "nat option \<Rightarrow> ('p, 'e) world \<Rightarrow> ('p, 'e) world" where
  "tracker_removeListener h w =
     (case h of
        None \<Rightarrow> w
      | Some k \<Rightarrow> w\<lparr>tracker_events := remove1 (Reemit k) (tracker_events w)\<rparr>)"

text \<open>Modelled from the spec: \<^verbatim>\<open>self.emit('track', event)\<close> on the task; every \<^verbatim>\<open>track\<close>
  listener of the task receives the event, unmodified.\<close>

definition emit_track :: "'e \<Rightarrow> ('p, 'e) world \<Rightarrow> ('p, 'e) world" where
  "emit_track e w =
     w\<lparr>signals := signals w @ [''track''],
       relayed := relayed w @ map (\<lambda>k. (k, e)) (on_track w)\<rparr>"

text \<open>One listener of the tracker's \<^verbatim>\<open>track\<close> stream receives a detection; the relay is
  \<^verbatim>\<open>function(event) { self.emit('track', event); }\<close>.\<close>

fun tracker_call :: "'e \<Rightarrow> tracker_listener \<Rightarrow> ('p, 'e) world \<Rightarrow> ('p, 'e) world" where
  "tracker_call e (Reemit k) w = emit_track e w"
| "tracker_call e (TrackerClient k) w = w\<lparr>tracker_heard := tracker_heard w @ [(k, e)]\<rparr>"

text \<open>Modelled from the spec: \<^verbatim>\<open>this.emit('track', {data: results})\<close> on the tracker; its
  listeners receive the detection in the order of their registration.\<close>

definition tracker_emit :: "'e \<Rightarrow> ('p, 'e) world \<Rightarrow> ('p, 'e) world" where
  "tracker_emit e w = fold (tracker_call e) (tracker_events w) w"

subsection \<open>The canvas and the animation frames\<close>

text \<open>
  \<^verbatim>\<open>context.getImageData(0, 0, width, height)\<close> on the canvas: it throws an
  \<^verbatim>\<open>IndexSizeError\<close> when the width or the height is zero and a \<^verbatim>\<open>SecurityError\<close> when the
  canvas is tainted; otherwise it gives the pixels of the canvas.
\<close>

definition getImageData :: "('p, 'e) world \<Rightarrow> error + 'p option" where
  "getImageData w =
     (if canvas_width w = 0 \<or> canvas_height w = 0 then Inl (DOMException ''IndexSizeError'')
      else if canvas_tainted w then Inl (DOMException ''SecurityError'')
      else Inr (canvas_pixels w))"

text \<open>
  \<^verbatim>\<open>trackCanvasInternal_\<close>: read the canvas and hand its pixels to \<^verbatim>\<open>tracker.track\<close>. An
  error of \<^verbatim>\<open>getImageData\<close> propagates before the tracker is reached. The call of the
  tracker is recorded with the number of the tick it happens in; the detections go out
  on the tracker's stream; an error of the tracker propagates.
\<close>

definition trackCanvasInternal :: "('p, 'e) world \<Rightarrow> error option \<times> ('p, 'e) world" where
  "trackCanvasInternal w =
     (let wd = canvas_width w;
          ht = canvas_height w
      in case getImageData w of
           Inl e \<Rightarrow> (Some e, w)
         | Inr imageData \<Rightarrow>
             (case tracker w of
                None \<Rightarrow> (Some (TypeError ''Cannot read property track of null''), w)
              | Some t \<Rightarrow>
                  (let w1 = w\<lparr>tracked := tracked w @ [(ticks w, imageData, wd, ht)]\<rparr>
                   in (snd (t imageData wd ht),
                       fold tracker_emit (fst (t imageData wd ht)) w1))))"

text \<open>\<^verbatim>\<open>requestId = window.requestAnimationFrame(function() { ... })\<close>.\<close>

definition requestAnimationFrame :: "('p, 'e) world \<Rightarrow> ('p, 'e) world" where
  "requestAnimationFrame w =
     w\<lparr>requestId := Some (next_request w),
       frame_requests := frame_requests w @ [next_request w],
       next_request := Suc (next_request w)\<rparr>"

text \<open>\<^verbatim>\<open>window.cancelAnimationFrame(requestId)\<close>; an id that is not pending, or
  \<^verbatim>\<open>undefined\<close>, cancels nothing.\<close>

definition cancelAnimationFrame :: "nat option \<Rightarrow> ('p, 'e) world \<Rightarrow> ('p, 'e) world" where
  "cancelAnimationFrame h w =
     (case h of
        None \<Rightarrow> w
      | Some r \<Rightarrow> w\<lparr>frame_requests := removeAll r (frame_requests w)\<rparr>)"

text \<open>\<^verbatim>\<open>a % b == 0\<close> on integers: the remainder has the sign of the dividend, and
  \<^verbatim>\<open>a % 0\<close> is \<^verbatim>\<open>NaN\<close>, which equals nothing.\<close>

definition js_rem :: "int \<Rightarrow> int \<Rightarrow> int option" where
  "js_rem a b = (if b = 0 then None else Some (a smod b))"

definition rem_is_zero :: "int \<Rightarrow> int \<Rightarrow> bool" where
  "rem_is_zero a b = (js_rem a b = Some 0)"

text \<open>
  \<^verbatim>\<open>try { context.drawImage(element, 0, 0, width, height); } catch (err) {}\<close>: when the
  copy succeeds the canvas holds the frame, and is tainted from then on when the frame
  is of another origin; when it throws, the error is dropped and the canvas is as before.
\<close>

definition try_drawImage :: "'p tick \<Rightarrow> ('p, 'e) world \<Rightarrow> ('p, 'e) world" where
  "try_drawImage env w =
     (if copy_fault env then w
      else w\<lparr>canvas_pixels := Some (frame env),
             canvas_tainted := (canvas_tainted w \<or> cross_origin env)\<rparr>)"

text \<open>
  The callback that \<^verbatim>\<open>requestAnimationFrame_\<close> registers, run for one animation frame.
  A fault of \<^verbatim>\<open>drawImage\<close> is caught and dropped, and \<^verbatim>\<open>trackCanvasInternal_\<close> follows
  the \<^verbatim>\<open>try\<close> block either way; an error of \<^verbatim>\<open>trackCanvasInternal_\<close> (of
  \<^verbatim>\<open>getImageData\<close> or of the tracker) leaves the callback before the next frame is
  requested.
\<close>

definition frame_callback ::
  "'p tick \<Rightarrow> ('p, 'e) world \<Rightarrow> error option \<times> ('p, 'e) world" where
  "frame_callback env w =
     (let w1 = w\<lparr>count := count w + 1\<rparr> in
      if rem_is_zero (count w1) (freq w1) then
        (let w2 = w1\<lparr>count := 0\<rparr> in
         if ready env then
           (let w3 = try_drawImage env w2;
                r = trackCanvasInternal w3
            in case fst r of
                 Some e \<Rightarrow> (Some e, snd r)
               | None \<Rightarrow> (None, requestAnimationFrame (snd r)))
         else (None, requestAnimationFrame w2))
      else (None, requestAnimationFrame w1))"

text \<open>
  One tick of the sampling loop: the browser takes the oldest pending request and runs
  its callback. With no request pending there is no tick (\<open>None\<close>). An error that
  leaves the callback is reported by the browser and the page lives on.
\<close>

definition tick :: "'p tick \<Rightarrow> ('p, 'e) world \<Rightarrow> ('p, 'e) world option" where
  "tick env w =
     (case frame_requests w of
        [] \<Rightarrow> None
      | r # rs \<Rightarrow>
          (let r = frame_callback env (w\<lparr>frame_requests := rs, ticks := Suc (ticks w)\<rparr>)
           in case fst r of
                None \<Rightarrow> Some (snd r)
              | Some e \<Rightarrow> Some ((snd r)\<lparr>uncaught := uncaught (snd r) @ [e]\<rparr>)))"

fun run_ticks :: "'p tick list \<Rightarrow> ('p, 'e) world \<Rightarrow> ('p, 'e) world option" where
  "run_ticks [] w = Some w"
| "run_ticks (env # envs) w =
     (case tick env w of None \<Rightarrow> None | Some w' \<Rightarrow> run_ticks envs w')"

text \<open>\<^verbatim>\<open>resizeCanvas_\<close>, with the element's current \<^verbatim>\<open>offsetWidth\<close> and \<^verbatim>\<open>offsetHeight\<close>;
  setting the size of a canvas clears it.\<close>

definition resizeCanvas :: "nat \<Rightarrow> nat \<Rightarrow> ('p, 'e) world \<Rightarrow> ('p, 'e) world" where
  "resizeCanvas ow oh w =
     w\<lparr>width := ow, height := oh,
       canvas_width := ow, canvas_height := oh, canvas_pixels := None\<rparr>"

subsection \<open>TrackerTask\<close>

definition inRunning :: "('p, 'e) world \<Rightarrow> bool" where
  "inRunning w = running w"

definition setRunning :: "bool \<Rightarrow> ('p, 'e) world \<Rightarrow> ('p, 'e) world" where
  "setRunning b w = w\<lparr>running := b\<rparr>"

definition getTracker :: "('p, 'e) world \<Rightarrow> ('p, 'e) tracker option" where
  "getTracker w = tracker w"

definition setTracker :: "('p, 'e) tracker option \<Rightarrow> ('p, 'e) world \<Rightarrow> ('p, 'e) world" where
  "setTracker t w = w\<lparr>tracker := t\<rparr>"

text \<open>
  The constructor: a new task has no tracker, is not running, has no relay and no
  listeners; then the tracker is checked and stored.
\<close>

definition new_TrackerTask ::
  "('p, 'e) tracker option \<Rightarrow> ('p, 'e) world \<Rightarrow> (error + unit) \<times> ('p, 'e) world" where
  "new_TrackerTask t w =
     (let w1 = w\<lparr>tracker := None, running := False, reemitTrackEvent := None,
                 on_run := [], on_stop := [], on_track := []\<rparr>
      in case t of
           None \<Rightarrow> (Inl (Error ''Tracker instance not specified.''), w1)
         | Some f \<Rightarrow> (Inr (), setTracker (Some f) w1))"

text \<open>One listener of \<^verbatim>\<open>run\<close> or \<^verbatim>\<open>stop\<close> is called.\<close>

fun call :: "string \<Rightarrow> 'e task_listener \<Rightarrow> ('p, 'e) world \<Rightarrow> error option \<times> ('p, 'e) world" where
  "call ev CanvasRun w = trackCanvasInternal w"
| "call ev ImgRun w = (None, w\<lparr>image_loads := Suc (image_loads w)\<rparr>)"
| "call ev VideoRun w = (None, requestAnimationFrame w)"
| "call ev VideoStop w = (None, cancelAnimationFrame (requestId w) w)"
| "call ev (Client k) w = (None, w\<lparr>heard := heard w @ [(k, ev)]\<rparr>)"
| "call ev (Inject e) w = (None, tracker_emit e w)"

text \<open>Modelled from the spec: the loop of \<^verbatim>\<open>EventEmitter.emit\<close>. The listeners are called
  in order; an error that a listener throws leaves \<^verbatim>\<open>emit\<close> and the listeners after it
  are not called.\<close>

fun call_all ::
  "string \<Rightarrow> 'e task_listener list \<Rightarrow> ('p, 'e) world \<Rightarrow> error option \<times> ('p, 'e) world" where
  "call_all ev [] w = (None, w)"
| "call_all ev (l # ls) w =
     (case fst (call ev l w) of
        Some e \<Rightarrow> (Some e, snd (call ev l w))
      | None \<Rightarrow> call_all ev ls (snd (call ev l w)))"

text \<open>Modelled from the spec: \<^verbatim>\<open>this.emit('run')\<close> and \<^verbatim>\<open>this.emit('stop')\<close> on the task.
  The emission is recorded in \<open>signals\<close>.\<close>

definition emit :: "string \<Rightarrow> ('p, 'e) world \<Rightarrow> error option \<times> ('p, 'e) world" where
  "emit ev w = call_all ev (listeners ev w) (w\<lparr>signals := signals w @ [ev]\<rparr>)"

definition run :: "('p, 'e) world \<Rightarrow> (error + retval) \<times> ('p, 'e) world" where
  "run w =
     (if inRunning w then (Inr Undefined, w)
      else
        (let w1 = setRunning True w;
             w2 = w1\<lparr>reemitTrackEvent := Some (closures w1), closures := Suc (closures w1)\<rparr>
         in case tracker w2 of
              None \<Rightarrow> (Inl (TypeError ''this.tracker_ is null''), w2)
            | Some t \<Rightarrow>
                (let w3 = tracker_on (Reemit (closures w1)) w2;
                     r = emit ''run'' w3
                 in case fst r of
                      Some e \<Rightarrow> (Inl e, snd r)
                    | None \<Rightarrow> (Inr This, snd r))))"

definition stop :: "('p, 'e) world \<Rightarrow> (error + retval) \<times> ('p, 'e) world" where
  "stop w =
     (if \<not> inRunning w then (Inr Undefined, w)
      else
        (let w1 = setRunning False w;
             r = emit ''stop'' w1
         in case fst r of
              Some e \<Rightarrow> (Inl e, snd r)
            | None \<Rightarrow>
                (case tracker (snd r) of
                   None \<Rightarrow> (Inl (TypeError ''this.tracker_ is null''), snd r)
                 | Some t \<Rightarrow>
                     (Inr This, tracker_removeListener (reemitTrackEvent (snd r)) (snd r)))))"

subsection \<open>tracking.track\<close>

text \<open>\<^verbatim>\<open>isWindow\<close> asks for the properties \<^verbatim>\<open>alert\<close> and \<^verbatim>\<open>document\<close>, which no handle of the
  model has.\<close>

fun isWindow :: "'p handle \<Rightarrow> bool" where
  "isWindow h = False"

text \<open>\<^verbatim>\<open>o.nodeType || isWindow(o)\<close>: reading a property of \<^verbatim>\<open>null\<close> throws; an element has
  a node type; a string has none.\<close>

fun isNode :: "'p handle \<Rightarrow> error + bool" where
  "isNode Null = Inl (TypeError ''Cannot read property nodeType of null'')"
| "isNode (Node el) = Inr True"
| "isNode (Selector s) = Inr (isWindow (Selector s :: 'p handle))"

fun one :: "'p handle \<Rightarrow> 'p document \<Rightarrow> error + 'p element option" where
  "one selector document =
     (case isNode selector of
        Inl e \<Rightarrow> Inl e
      | Inr b \<Rightarrow>
          (case selector of
             Node el \<Rightarrow> Inr (Some el)
           | Selector s \<Rightarrow> Inr (document s)
           | Null \<Rightarrow> Inl (TypeError ''Cannot read property nodeType of null'')))"

definition toLowerCase_char :: "char \<Rightarrow> char" where
  "toLowerCase_char c =
     (let n = (of_char c :: nat) in if 65 \<le> n \<and> n \<le> 90 then char_of (n + 32) else c)"

definition toLowerCase :: "string \<Rightarrow> string" where
  "toLowerCase s = map toLowerCase_char s"

text \<open>\<^verbatim>\<open>initUserMedia_\<close> asks the browser for the camera; the request is recorded with its
  \<^verbatim>\<open>audio\<close> flag. What the browser answers is outside the model.\<close>

definition initUserMedia :: "options option \<Rightarrow> ('p, 'e) world \<Rightarrow> ('p, 'e) world" where
  "initUserMedia opt_options w =
     w\<lparr>media_requests := media_requests w @
         [case opt_options of None \<Rightarrow> False | Some opts \<Rightarrow> opt_audio opts]\<rparr>"

text \<open>\<^verbatim>\<open>trackCanvas_\<close>: the element is the canvas that is read.\<close>

definition trackCanvas ::
  "'p element \<Rightarrow> ('p, 'e) tracker option \<Rightarrow> ('p, 'e) world \<Rightarrow> (error + retval) \<times> ('p, 'e) world" where
  "trackCanvas element t w =
     (let w1 = w\<lparr>canvas_width := elem_width element, canvas_height := elem_height element,
                 canvas_pixels := elem_pixels element,
                 canvas_tainted := elem_tainted element\<rparr>;
          r = new_TrackerTask t w1
      in case fst r of
           Inl e \<Rightarrow> (Inl e, snd r)
         | Inr u \<Rightarrow> run (on ''run'' CanvasRun (snd r)))"

text \<open>\<^verbatim>\<open>trackImg_\<close>: a new canvas of the size of the image; the \<^verbatim>\<open>run\<close> listener asks
  \<^verbatim>\<open>Canvas.loadImage\<close> for the image.\<close>

definition trackImg ::
  "'p element \<Rightarrow> ('p, 'e) tracker option \<Rightarrow> ('p, 'e) world \<Rightarrow> (error + retval) \<times> ('p, 'e) world" where
  "trackImg element t w =
     (let w1 = w\<lparr>canvas_width := elem_width element, canvas_height := elem_height element,
                 canvas_pixels := None, canvas_tainted := False,
                 image := elem_pixels element, image_tainted := elem_tainted element\<rparr>;
          r = new_TrackerTask t w1
      in case fst r of
           Inl e \<Rightarrow> (Inl e, snd r)
         | Inr u \<Rightarrow> run (on ''run'' ImgRun (snd r)))"

text \<open>Modelled from the spec: \<^verbatim>\<open>Canvas.loadImage\<close> is not among the sources. The image is
  resolved once, later, onto the canvas, and then the callback of \<^verbatim>\<open>trackImg_\<close> reads the
  canvas; with no load pending nothing happens (\<open>None\<close>).\<close>

definition image_loaded :: "('p, 'e) world \<Rightarrow> ('p, 'e) world option" where
  "image_loaded w =
     (if image_loads w = 0 then None
      else
        (let r = trackCanvasInternal
                   (w\<lparr>image_loads := image_loads w - 1, canvas_pixels := image w,
                      canvas_tainted := (canvas_tainted w \<or> image_tainted w)\<rparr>)
         in case fst r of
              None \<Rightarrow> Some (snd r)
            | Some e \<Rightarrow> Some ((snd r)\<lparr>uncaught := uncaught (snd r) @ [e]\<rparr>)))"

text \<open>
  \<^verbatim>\<open>trackVideo_\<close>. A canvas is created (300 by 150, empty, not tainted), then
  \<^verbatim>\<open>'freq' in opt_options\<close> is evaluated, which throws when \<^verbatim>\<open>opt_options\<close> is
  \<^verbatim>\<open>undefined\<close>; then the canvas takes the size of the element, the task is made, the
  \<^verbatim>\<open>stop\<close> and \<^verbatim>\<open>run\<close> listeners are registered and the task is run.
\<close>

definition trackVideo ::
  "'p element \<Rightarrow> ('p, 'e) tracker option \<Rightarrow> options option \<Rightarrow> ('p, 'e) world
     \<Rightarrow> (error + retval) \<times> ('p, 'e) world" where
  "trackVideo element t opt_options w =
     (let w1 = w\<lparr>canvas_width := 300, canvas_height := 150, canvas_pixels := None,
                 canvas_tainted := False\<rparr>
      in case opt_options of
           None \<Rightarrow> (Inl (TypeError ''Cannot use in operator to search for freq in undefined''), w1)
         | Some opts \<Rightarrow>
             (let w2 = w1\<lparr>freq := (case opt_freq opts of Some f \<Rightarrow> f | None \<Rightarrow> 100)\<rparr>;
                  w3 = resizeCanvas (offsetWidth element) (offsetHeight element) w2;
                  w4 = w3\<lparr>requestId := None, count := 0\<rparr>;
                  r = new_TrackerTask t w4
              in case fst r of
                   Inl e \<Rightarrow> (Inl e, snd r)
                 | Inr u \<Rightarrow> run (on ''run'' VideoRun (on ''stop'' VideoStop (snd r)))))"

definition track ::
  "'p handle \<Rightarrow> ('p, 'e) tracker option \<Rightarrow> options option \<Rightarrow> 'p document \<Rightarrow> ('p, 'e) world
     \<Rightarrow> (error + retval) \<times> ('p, 'e) world" where
  "track element t opt_options document w =
     (case one element document of
        Inl e \<Rightarrow> (Inl e, w)
      | Inr None \<Rightarrow>
          (Inl (Error ''Element not found, try a different element or selector.''), w)
      | Inr (Some el) \<Rightarrow>
          (case t of
             None \<Rightarrow>
               (Inl (Error ''Tracker not specified, try tracking.track(element, new tracking.FaceTracker()).''), w)
           | Some f \<Rightarrow>
               (let n = toLowerCase (nodeName el) in
                if n = ''canvas'' then trackCanvas el t w
                else if n = ''img'' then trackImg el t w
                else if n = ''video'' then
                  trackVideo el t opt_options
                    (case opt_options of
                       None \<Rightarrow> w
                     | Some opts \<Rightarrow> if opt_camera opts then initUserMedia opt_options w else w)
                else (Inl (Error ''Element not supported, try in a canvas, img, or video.''), w))))"

text \<open>The page before \<^verbatim>\<open>tracking.track\<close> is called: nothing pending, nothing recorded, and
  the given listeners of the caller on the tracker.\<close>

definition page :: "tracker_listener list \<Rightarrow> ('p, 'e) world" where
  "page ls =
     \<lparr>tracker_events = ls, tracker = None, running = False, reemitTrackEvent = None,
      on_run = [], on_stop = [], on_track = [],
      canvas_width = 0, canvas_height = 0, canvas_pixels = None, canvas_tainted = False,
      image = None, image_tainted = False,
      width = 0, height = 0, freq = 0, requestId = None, count = 0,
      frame_requests = [], next_request = 0, image_loads = 0, media_requests = [],
      closures = 0, ticks = 0, signals = [], heard = [], relayed = [], tracker_heard = [],
      tracked = [], uncaught = []\<rparr>"

text \<open>The caller subscribes to the task's \<^verbatim>\<open>track\<close> events: \<^verbatim>\<open>task.on('track', f)\<close>.\<close>

definition on_track_add :: "nat \<Rightarrow> ('p, 'e) world \<Rightarrow> ('p, 'e) world" where
  "on_track_add k w = w\<lparr>on_track := on_track w @ [k]\<rparr>"

subsection \<open>Predicates and runs used in the statements\<close>

fun is_relay :: "tracker_listener \<Rightarrow> bool" where
  "is_relay (Reemit k) = True"
| "is_relay (TrackerClient k) = False"

text \<open>The relay subscriptions that are active on the tracker's detection stream.\<close>

definition relays :: "('p, 'e) world \<Rightarrow> tracker_listener list" where
  "relays w = filter is_relay (tracker_events w)"

text \<open>
  The state of a task between calls: it has a tracker; while it runs, the one relay on
  the tracker is the stored one; while it does not, the tracker carries no relay.
\<close>

definition consistent :: "('p, 'e) world \<Rightarrow> bool" where
  "consistent w =
     (tracker w \<noteq> None \<and>
      (if running w
       then (case reemitTrackEvent w of None \<Rightarrow> False | Some k \<Rightarrow> relays w = [Reemit k])
       else relays w = []))"

text \<open>What no listener and no tick changes: the fields and the listener lists of the
  task and of the tracker; the task emits nothing but \<^verbatim>\<open>track\<close>; deliveries are only
  added.\<close>

definition task_kept :: "('p, 'e) world \<Rightarrow> ('p, 'e) world \<Rightarrow> bool" where
  "task_kept w w' \<longleftrightarrow>
     tracker_events w' = tracker_events w \<and> tracker w' = tracker w \<and>
     running w' = running w \<and> reemitTrackEvent w' = reemitTrackEvent w \<and>
     on_run w' = on_run w \<and> on_stop w' = on_stop w \<and> on_track w' = on_track w \<and>
     (\<exists>n. signals w' = signals w @ replicate n ''track'') \<and>
     (\<exists>r. relayed w' = relayed w @ r)"

text \<open>What the tracker and the relay leave alone: the closure variables of the loop, the
  canvas, the window and the record of extractions and uncaught errors.\<close>

definition loop_kept :: "('p, 'e) world \<Rightarrow> ('p, 'e) world \<Rightarrow> bool" where
  "loop_kept w w' \<longleftrightarrow>
     freq w' = freq w \<and> count w' = count w \<and> requestId w' = requestId w \<and>
     width w' = width w \<and> height w' = height w \<and>
     canvas_width w' = canvas_width w \<and> canvas_height w' = canvas_height w \<and>
     canvas_pixels w' = canvas_pixels w \<and> canvas_tainted w' = canvas_tainted w \<and>
     image w' = image w \<and> image_tainted w' = image_tainted w \<and>
     frame_requests w' = frame_requests w \<and> next_request w' = next_request w \<and>
     image_loads w' = image_loads w \<and> media_requests w' = media_requests w \<and>
     closures w' = closures w \<and> ticks w' = ticks w \<and> heard w' = heard w \<and>
     tracked w' = tracked w \<and> uncaught w' = uncaught w"

text \<open>\<^verbatim>\<open>getImageData\<close> can read the canvas: it has a width and a height and is not
  tainted.\<close>

definition readable :: "('p, 'e) world \<Rightarrow> bool" where
  "readable w \<longleftrightarrow> 0 < canvas_width w \<and> 0 < canvas_height w \<and> \<not> canvas_tainted w"

text \<open>Among the ticks 1, 2, ..., those that are multiples of \<open>N\<close> and in which the video is
  ready.\<close>

definition hit_ticks :: "nat \<Rightarrow> 'p tick list \<Rightarrow> nat list" where
  "hit_ticks N envs = [i \<leftarrow> [1..<Suc (length envs)]. N dvd i \<and> ready (envs ! (i - 1))]"

text \<open>What the \<^verbatim>\<open>track\<close> listeners \<open>ks\<close> of the task receive when the tracker is called on
  the pixels \<open>p\<close> and its detections are relayed: each detection, in order, goes to each
  listener, in order.\<close>

definition deliveries ::
  "('p, 'e) tracker \<Rightarrow> nat list \<Rightarrow> 'p option \<Rightarrow> nat \<Rightarrow> nat \<Rightarrow> (nat \<times> 'e) list" where
  "deliveries t ks p wd ht = concat (map (\<lambda>e. map (\<lambda>k. (k, e)) ks) (fst (t p wd ht)))"

text \<open>The tracker never throws.\<close>

definition reliable :: "('p, 'e) tracker \<Rightarrow> bool" where
  "reliable t \<longleftrightarrow> (\<forall>p wd ht. snd (t p wd ht) = None)"

text \<open>The loop of \<^verbatim>\<open>trackVideo_\<close> with a positive divisor \<open>N\<close>: the counter is below it.\<close>

definition sampling :: "nat \<Rightarrow> ('p, 'e) world \<Rightarrow> bool" where
  "sampling N w \<longleftrightarrow>
     0 < N \<and> freq w = int N \<and> 0 \<le> count w \<and> count w < int N \<and> tracker w \<noteq> None"

text \<open>A sequence of calls on the task by its owner; an error that leaves a call ends
  the sequence.\<close>

datatype op = Run | Stop

fun apply_op :: "op \<Rightarrow> ('p, 'e) world \<Rightarrow> error + ('p, 'e) world" where
  "apply_op Run w = (case fst (run w) of Inl e \<Rightarrow> Inl e | Inr v \<Rightarrow> Inr (snd (run w)))"
| "apply_op Stop w = (case fst (stop w) of Inl e \<Rightarrow> Inl e | Inr v \<Rightarrow> Inr (snd (stop w)))"

fun apply_ops :: "op list \<Rightarrow> ('p, 'e) world \<Rightarrow> error + ('p, 'e) world" where
  "apply_ops [] w = Inr w"
| "apply_ops (x # xs) w = (case apply_op x w of Inl e \<Rightarrow> Inl e | Inr w' \<Rightarrow> apply_ops xs w')"


subsection \<open>A small page, for the examples\<close>

text \<open>A tracker that emits one detection per call, the pixels it was given (0 for an
  empty canvas), and never throws; one that throws, as \<^verbatim>\<open>ObjectTracker\<close> does without
  classifiers.\<close>

definition echo :: "(nat, nat) tracker" where
  "echo p wd ht = ([case p of None \<Rightarrow> 0 | Some x \<Rightarrow> x], None)"

definition broken :: "(nat, nat) tracker" where
  "broken p wd ht = ([], Some (Error ''Object classifier not specified''))"

definition video :: "nat element" where
  "video = \<lparr>nodeName = ''VIDEO'', elem_width = 0, elem_height = 0,
            offsetWidth = 4, offsetHeight = 3, elem_pixels = None, elem_tainted = False\<rparr>"

definition canvas :: "nat element" where
  "canvas = \<lparr>nodeName = ''CANVAS'', elem_width = 2, elem_height = 2,
             offsetWidth = 2, offsetHeight = 2, elem_pixels = Some 5, elem_tainted = False\<rparr>"

text \<open>A video that is not displayed: it has no width and no height.\<close>

definition hidden_video :: "nat element" where
  "hidden_video = \<lparr>nodeName = ''VIDEO'', elem_width = 0, elem_height = 0,
                   offsetWidth = 0, offsetHeight = 0, elem_pixels = None,
                   elem_tainted = False\<rparr>"

definition division :: "nat element" where
  "division = \<lparr>nodeName = ''DIV'', elem_width = 0, elem_height = 0,
               offsetWidth = 9, offsetHeight = 9, elem_pixels = None, elem_tainted = False\<rparr>"

definition empty_document :: "nat document" where
  "empty_document s = None"

text \<open>A task on \<open>echo\<close> with one listener of the caller's on each of \<^verbatim>\<open>track\<close>, \<^verbatim>\<open>run\<close>
  and \<^verbatim>\<open>stop\<close>, and a \<^verbatim>\<open>stop\<close> listener during which the tracker emits the detection 9.\<close>

definition task0 :: "(nat, nat) world" where
  "task0 =
     on ''stop'' (Inject 9) (on ''stop'' (Client 2) (on ''run'' (Client 1)
       (on_track_add 7 (snd (new_TrackerTask (Some echo) (page [TrackerClient 3]))))))"

text \<open>Options with the given \<^verbatim>\<open>freq\<close> and nothing else.\<close>

definition with_freq :: "int \<Rightarrow> options" where
  "with_freq n = \<lparr>opt_freq = Some n, opt_camera = False, opt_audio = False\<rparr>"

definition no_freq :: options where
  "no_freq = \<lparr>opt_freq = None, opt_camera = False, opt_audio = False\<rparr>"

text \<open>A frame on which the video is ready and the copy succeeds.\<close>

definition good :: "nat \<Rightarrow> nat tick" where
  "good p = \<lparr>ready = True, copy_fault = False, frame = p, cross_origin = False\<rparr>"

definition not_ready :: "nat \<Rightarrow> nat tick" where
  "not_ready p = \<lparr>ready = False, copy_fault = False, frame = p, cross_origin = False\<rparr>"

text \<open>A frame on which the video is ready and the copy fails.\<close>

definition faulty :: "nat \<Rightarrow> nat tick" where
  "faulty p = \<lparr>ready = True, copy_fault = True, frame = p, cross_origin = False\<rparr>"

text \<open>A frame of another origin, on which the video is ready and the copy succeeds.\<close>

definition foreign :: "nat \<Rightarrow> nat tick" where
  "foreign p = \<lparr>ready = True, copy_fault = False, frame = p, cross_origin = True\<rparr>"

text \<open>The video tracked on a fresh page with the given \<^verbatim>\<open>freq\<close>, and then the caller's
  listener 7 on the task's \<^verbatim>\<open>track\<close> events.\<close>

definition video_task :: "int \<Rightarrow> (nat, nat) world" where
  "video_task n =
     on_track_add 7
       (snd (track (Node video) (Some echo) (Some (with_freq n)) empty_document (page [])))"

text \<open>The same for the video that is not displayed.\<close>

definition hidden_task :: "int \<Rightarrow> (nat, nat) world" where
  "hidden_task n =
     on_track_add 7
       (snd (track (Node hidden_video) (Some echo) (Some (with_freq n)) empty_document (page [])))"

section \<open>What listeners and ticks leave alone\<close>

lemma task_kept_refl: "task_kept w w"
  unfolding task_kept_def by (auto intro: exI [of _ 0])

lemma task_kept_trans: "task_kept w w1 \<Longrightarrow> task_kept w1 w2 \<Longrightarrow> task_kept w w2"
  unfolding task_kept_def
  apply (elim conjE exE)
  apply (intro conjI)
          apply simp_all
   apply (metis replicate_add)
  done

lemma emit_track_kept: "task_kept w (emit_track e w)"
  unfolding task_kept_def emit_track_def by (auto intro: exI [of _ 1])

lemma tracker_call_kept: "task_kept w (tracker_call e l w)"
proof (cases l)
  case (Reemit k)
  then show ?thesis by (simp add: emit_track_kept)
next
  case (TrackerClient k)
  then show ?thesis unfolding task_kept_def by (auto intro: exI [of _ 0])
qed

lemma fold_tracker_call_kept: "task_kept w (fold (tracker_call e) ls w)"
proof (induction ls arbitrary: w)
  case Nil
  show ?case by (simp add: task_kept_refl)
next
  case (Cons l ls)
  show ?case using task_kept_trans [OF tracker_call_kept Cons.IH] by simp
qed

lemma tracker_emit_kept: "task_kept w (tracker_emit e w)"
  unfolding tracker_emit_def by (rule fold_tracker_call_kept)

lemma fold_tracker_emit_kept: "task_kept w (fold tracker_emit es w)"
proof (induction es arbitrary: w)
  case Nil
  show ?case by (simp add: task_kept_refl)
next
  case (Cons e es)
  show ?case using task_kept_trans [OF tracker_emit_kept Cons.IH] by simp
qed

lemma tracked_update_kept: "task_kept w (w\<lparr>tracked := x\<rparr>)"
  unfolding task_kept_def by (auto intro: exI [of _ 0])

lemma trackCanvasInternal_kept: "task_kept w (snd (trackCanvasInternal w))"
proof (cases "getImageData w")
  case (Inl e)
  then show ?thesis by (simp add: trackCanvasInternal_def task_kept_refl)
next
  case (Inr p)
  show ?thesis
  proof (cases "tracker w")
    case None
    with Inr show ?thesis by (simp add: trackCanvasInternal_def task_kept_refl)
  next
    case (Some t)
    with Inr show ?thesis
      by (simp add: trackCanvasInternal_def Let_def
          task_kept_trans [OF tracked_update_kept fold_tracker_emit_kept])
  qed
qed

lemma requestAnimationFrame_kept: "task_kept w (requestAnimationFrame w)"
  unfolding task_kept_def requestAnimationFrame_def by (auto intro: exI [of _ 0])

lemma cancelAnimationFrame_kept: "task_kept w (cancelAnimationFrame h w)"
  unfolding task_kept_def cancelAnimationFrame_def by (auto intro: exI [of _ 0] split: option.splits)

lemma call_kept: "task_kept w (snd (call ev l w))"
proof (cases l)
  case CanvasRun
  then show ?thesis by (simp add: trackCanvasInternal_kept)
next
  case ImgRun
  then show ?thesis unfolding task_kept_def by (auto intro: exI [of _ 0])
next
  case VideoRun
  then show ?thesis by (simp add: requestAnimationFrame_kept)
next
  case VideoStop
  then show ?thesis by (simp add: cancelAnimationFrame_kept)
next
  case (Client k)
  then show ?thesis unfolding task_kept_def by (auto intro: exI [of _ 0])
next
  case (Inject e)
  then show ?thesis by (simp add: tracker_emit_kept)
qed

lemma call_all_kept: "task_kept w (snd (call_all ev ls w))"
proof (induction ls arbitrary: w)
  case Nil
  show ?case by (simp add: task_kept_refl)
next
  case (Cons l ls)
  show ?case
  proof (cases "fst (call ev l w)")
    case None
    then show ?thesis using task_kept_trans [OF call_kept Cons.IH] by simp
  next
    case (Some e)
    then show ?thesis by (simp add: call_kept)
  qed
qed

section \<open>run and stop\<close>

lemma emit_kept:
  "task_kept (w\<lparr>signals := signals w @ [ev]\<rparr>) (snd (emit ev w))"
  unfolding emit_def by (rule call_all_kept)

lemma run_idle:
  assumes "\<not> running w" and "tracker w = Some t"
  shows "running (snd (run w))"
    and "reemitTrackEvent (snd (run w)) = Some (closures w)"
    and "tracker_events (snd (run w)) = tracker_events w @ [Reemit (closures w)]"
    and "tracker (snd (run w)) = tracker w"
    and "on_run (snd (run w)) = on_run w"
    and "on_stop (snd (run w)) = on_stop w"
    and "on_track (snd (run w)) = on_track w"
    and "\<exists>n. signals (snd (run w)) = signals w @ ''run'' # replicate n ''track''"
    and "fst (run w) \<noteq> Inr Undefined"
proof -
  define w3 where "w3 = tracker_on (Reemit (closures w))
    (setRunning True w\<lparr>reemitTrackEvent := Some (closures w), closures := Suc (closures w)\<rparr>)"
  have r: "run w = (case fst (emit ''run'' w3) of Some e \<Rightarrow> (Inl e, snd (emit ''run'' w3))
                    | None \<Rightarrow> (Inr This, snd (emit ''run'' w3)))"
    using assms by (simp add: run_def inRunning_def setRunning_def Let_def w3_def split: option.splits)
  then have s: "snd (run w) = snd (emit ''run'' w3)"
    by (simp split: option.splits)
  have k: "task_kept (w3\<lparr>signals := signals w3 @ [''run'']\<rparr>) (snd (run w))"
    unfolding s by (rule emit_kept)
  show "running (snd (run w))" "reemitTrackEvent (snd (run w)) = Some (closures w)"
    "tracker_events (snd (run w)) = tracker_events w @ [Reemit (closures w)]"
    "tracker (snd (run w)) = tracker w" "on_run (snd (run w)) = on_run w"
    "on_stop (snd (run w)) = on_stop w" "on_track (snd (run w)) = on_track w"
    using k by (simp_all add: task_kept_def w3_def tracker_on_def setRunning_def)
  show "\<exists>n. signals (snd (run w)) = signals w @ ''run'' # replicate n ''track''"
    using k by (simp add: task_kept_def w3_def tracker_on_def setRunning_def)
  show "fst (run w) \<noteq> Inr Undefined"
    unfolding r by (simp split: option.splits)
qed

lemma run_running: "running w \<Longrightarrow> run w = (Inr Undefined, w)"
  by (simp add: run_def inRunning_def)

lemma stop_idle: "\<not> running w \<Longrightarrow> stop w = (Inr Undefined, w)"
  by (simp add: stop_def inRunning_def)

lemma stop_running:
  assumes "running w" and "tracker w = Some t" and "fst (stop w) = Inr v"
  shows "\<not> running (snd (stop w))"
    and "reemitTrackEvent (snd (stop w)) = reemitTrackEvent w"
    and "tracker_events (snd (stop w)) =
           (case reemitTrackEvent w of None \<Rightarrow> tracker_events w
            | Some k \<Rightarrow> remove1 (Reemit k) (tracker_events w))"
    and "tracker (snd (stop w)) = tracker w"
    and "on_run (snd (stop w)) = on_run w"
    and "on_stop (snd (stop w)) = on_stop w"
    and "on_track (snd (stop w)) = on_track w"
    and "\<exists>n. signals (snd (stop w)) = signals w @ ''stop'' # replicate n ''track''"
    and "v = This"
proof -
  define w1 where "w1 = setRunning False w"
  have k: "task_kept (w1\<lparr>signals := signals w1 @ [''stop'']\<rparr>) (snd (emit ''stop'' w1))"
    by (rule emit_kept)
  then have t: "tracker (snd (emit ''stop'' w1)) = Some t"
    using assms(2) by (simp add: task_kept_def w1_def setRunning_def)
  have r: "stop w = (case fst (emit ''stop'' w1) of Some e \<Rightarrow> (Inl e, snd (emit ''stop'' w1))
                    | None \<Rightarrow> (Inr This, tracker_removeListener
                         (reemitTrackEvent (snd (emit ''stop'' w1))) (snd (emit ''stop'' w1))))"
    using assms(1) t by (simp add: stop_def inRunning_def Let_def w1_def split: option.splits)
  from assms(3) have n: "fst (emit ''stop'' w1) = None"
    unfolding r by (simp split: option.splits)
  have s: "snd (stop w) = tracker_removeListener
             (reemitTrackEvent (snd (emit ''stop'' w1))) (snd (emit ''stop'' w1))"
    unfolding r using n by simp
  show "\<not> running (snd (stop w))" "reemitTrackEvent (snd (stop w)) = reemitTrackEvent w"
    "tracker (snd (stop w)) = tracker w" "on_run (snd (stop w)) = on_run w"
    "on_stop (snd (stop w)) = on_stop w" "on_track (snd (stop w)) = on_track w"
    unfolding s using k
    by (simp_all add: task_kept_def w1_def tracker_removeListener_def setRunning_def
        split: option.splits)
  show "tracker_events (snd (stop w)) =
           (case reemitTrackEvent w of None \<Rightarrow> tracker_events w
            | Some k \<Rightarrow> remove1 (Reemit k) (tracker_events w))"
    unfolding s using k
    by (simp add: task_kept_def w1_def tracker_removeListener_def setRunning_def
        split: option.splits)
  show "\<exists>n. signals (snd (stop w)) = signals w @ ''stop'' # replicate n ''track''"
    unfolding s using k
    by (simp add: task_kept_def w1_def tracker_removeListener_def setRunning_def
        split: option.splits)
  show "v = This" using assms(3) unfolding r using n by simp
qed

lemma filter_remove1_single:
  "filter P xs = [x] \<Longrightarrow> filter P (remove1 x xs) = []"
proof (induction xs)
  case Nil
  then show ?case by simp
next
  case (Cons y ys)
  show ?case
  proof (cases "y = x")
    case True
    with Cons.prems have "P x" by (metis filter_eq_ConsD)
    with True Cons.prems show ?thesis by simp
  next
    case False
    with Cons show ?thesis by (auto split: if_splits)
  qed
qed

lemma new_TrackerTask_consistent:
  assumes "relays w = []"
  shows "fst (new_TrackerTask (Some t) w) = Inr ()"
    and "consistent (snd (new_TrackerTask (Some t) w))"
    and "reemitTrackEvent (snd (new_TrackerTask (Some t) w)) = None"
  using assms
  by (simp_all add: new_TrackerTask_def setTracker_def consistent_def relays_def)

lemma on_consistent: "consistent w \<Longrightarrow> consistent (on ev l w)"
  by (auto simp: on_def consistent_def relays_def split: option.splits)

lemma on_track_add_consistent: "consistent w \<Longrightarrow> consistent (on_track_add k w)"
  by (auto simp: on_track_add_def consistent_def relays_def split: option.splits)

lemma run_consistent: "consistent w \<Longrightarrow> consistent (snd (run w))"
proof (cases "running w")
  case True
  assume "consistent w"
  with True show ?thesis by (simp add: run_running)
next
  case False
  assume c: "consistent w"
  then obtain t where t: "tracker w = Some t" by (auto simp: consistent_def)
  from c False have "relays w = []" by (simp add: consistent_def)
  then show ?thesis
    using run_idle(1-4) [OF False t] t by (simp add: consistent_def relays_def)
qed

lemma stop_consistent:
  assumes "consistent w" and "fst (stop w) = Inr v"
  shows "consistent (snd (stop w))"
proof (cases "running w")
  case False
  with assms show ?thesis by (simp add: stop_idle)
next
  case True
  from assms(1) obtain t where t: "tracker w = Some t" by (auto simp: consistent_def)
  from assms(1) True obtain k where k: "reemitTrackEvent w = Some k" "relays w = [Reemit k]"
    by (auto simp: consistent_def split: option.splits)
  show ?thesis
    using stop_running(1-4) [OF True t assms(2)] t k
    by (simp add: consistent_def relays_def filter_remove1_single)
qed

lemma relayed_fold_tracker_call:
  "relayed (fold (tracker_call e) ls w) =
     relayed w @ concat (map (\<lambda>l. map (\<lambda>k. (k, e)) (on_track w)) (filter is_relay ls))"
proof (induction ls arbitrary: w)
  case Nil
  show ?case by simp
next
  case (Cons l ls)
  have k: "on_track (tracker_call e l w) = on_track w"
    using tracker_call_kept [of w e l] by (simp add: task_kept_def)
  show ?case
    by (cases l) (simp_all add: Cons.IH k, simp_all add: emit_track_def)
qed

lemma relayed_tracker_emit:
  "relayed (tracker_emit e w) =
     relayed w @ concat (map (\<lambda>l. map (\<lambda>k. (k, e)) (on_track w)) (relays w))"
  unfolding tracker_emit_def relays_def by (rule relayed_fold_tracker_call)

lemma relayed_fold_tracker_emit:
  "relays w = [] \<Longrightarrow> relayed (fold tracker_emit es w) = relayed w"
proof (induction es arbitrary: w)
  case Nil
  show ?case by simp
next
  case (Cons e es)
  have "relays (tracker_emit e w) = relays w"
    using tracker_emit_kept [of w e] by (simp add: task_kept_def relays_def)
  with Cons show ?case by (simp add: relayed_tracker_emit)
qed

lemma call_all_append:
  "call_all ev (xs @ ys) w =
     (case fst (call_all ev xs w) of
        Some e \<Rightarrow> call_all ev xs w
      | None \<Rightarrow> call_all ev ys (snd (call_all ev xs w)))"
proof (induction xs arbitrary: w)
  case Nil
  show ?case by simp
next
  case (Cons x xs)
  show ?case by (cases "fst (call ev x w)") (simp_all add: Cons.IH split: option.splits)
qed

lemma call_all_inject:
  assumes "Inject e \<in> set ls" and "fst (call_all ev ls w) = None"
    and "relays w = [Reemit k]"
  shows "\<exists>r1 r2. relayed (snd (call_all ev ls w)) =
           relayed w @ r1 @ map (\<lambda>k. (k, e)) (on_track w) @ r2"
proof -
  from assms(1) obtain xs ys where ls: "ls = xs @ Inject e # ys"
    by (auto dest: split_list)
  define wa where "wa = snd (call_all ev xs w)"
  define wb where "wb = tracker_emit e wa"
  have xs: "fst (call_all ev xs w) = None"
    using assms(2) unfolding ls call_all_append by (cases "fst (call_all ev xs w)") simp_all
  have all: "snd (call_all ev ls w) = snd (call_all ev ys wb)"
    unfolding ls call_all_append using xs by (simp add: wa_def wb_def)
  have ka: "task_kept w wa" unfolding wa_def by (rule call_all_kept)
  then obtain r1 where r1: "relayed wa = relayed w @ r1" by (auto simp: task_kept_def)
  from ka assms(3) have "relays wa = [Reemit k]" "on_track wa = on_track w"
    by (simp_all add: task_kept_def relays_def)
  then have b: "relayed wb = relayed wa @ map (\<lambda>k. (k, e)) (on_track w)"
    unfolding wb_def by (simp add: relayed_tracker_emit)
  have "task_kept wb (snd (call_all ev ys wb))" by (rule call_all_kept)
  then obtain r2 where "relayed (snd (call_all ev ys wb)) = relayed wb @ r2"
    by (auto simp: task_kept_def)
  with all b r1 show ?thesis by auto
qed

lemma signals_fold_tracker_call:
  "signals (fold (tracker_call e) ls w) =
     signals w @ replicate (length (filter is_relay ls)) ''track''"
proof (induction ls arbitrary: w)
  case Nil
  show ?case by simp
next
  case (Cons l ls)
  show ?case
    by (cases l) (simp_all add: Cons.IH emit_track_def replicate_append_same)
qed

lemma signals_fold_tracker_emit:
  "relays w = [] \<Longrightarrow> signals (fold tracker_emit es w) = signals w"
proof (induction es arbitrary: w)
  case Nil
  show ?case by simp
next
  case (Cons e es)
  have "relays (tracker_emit e w) = relays w"
    using tracker_emit_kept [of w e] by (simp add: task_kept_def relays_def)
  moreover have "signals (tracker_emit e w) = signals w"
    using Cons.prems by (simp add: tracker_emit_def relays_def signals_fold_tracker_call)
  ultimately show ?case using Cons by simp
qed

lemma stop_running_emit:
  assumes "running w" and "tracker w = Some t" and "fst (stop w) = Inr v"
  shows "fst (emit ''stop'' (setRunning False w)) = None"
    and "snd (stop w) = tracker_removeListener (reemitTrackEvent w)
           (snd (emit ''stop'' (setRunning False w)))"
proof -
  define w1 where "w1 = setRunning False w"
  have k: "task_kept (w1\<lparr>signals := signals w1 @ [''stop'']\<rparr>) (snd (emit ''stop'' w1))"
    by (rule emit_kept)
  then have t: "tracker (snd (emit ''stop'' w1)) = Some t"
    and h: "reemitTrackEvent (snd (emit ''stop'' w1)) = reemitTrackEvent w"
    using assms(2) by (simp_all add: task_kept_def w1_def setRunning_def)
  have r: "stop w = (case fst (emit ''stop'' w1) of Some e \<Rightarrow> (Inl e, snd (emit ''stop'' w1))
                    | None \<Rightarrow> (Inr This, tracker_removeListener
                         (reemitTrackEvent w) (snd (emit ''stop'' w1))))"
    using assms(1) t h by (simp add: stop_def inRunning_def Let_def w1_def split: option.splits)
  from assms(3) show n: "fst (emit ''stop'' (setRunning False w)) = None"
    unfolding r w1_def by (simp split: option.splits)
  show "snd (stop w) = tracker_removeListener (reemitTrackEvent w)
           (snd (emit ''stop'' (setRunning False w)))"
    unfolding r using n by (simp add: w1_def)
qed

section \<open>The claims about the task\<close>

text \<open>
  C3. A task that runs is stopped, and \<^verbatim>\<open>stop()\<close> returns. Whatever detections the tracker
  emits afterwards, none reaches the listeners of the task, and the task emits no
  \<^verbatim>\<open>track\<close> event. The \<^verbatim>\<open>stop\<close> signal goes out while the relay is still subscribed: a
  detection that the tracker emits while a \<^verbatim>\<open>stop\<close> listener runs is delivered to every
  \<^verbatim>\<open>track\<close> listener of the task.
\<close>

theorem stop_ends_relay:
  assumes "consistent w" and "running w" and "stop w = (Inr v, w')"
  shows "relayed (fold tracker_emit es w') = relayed w' \<and>
         signals (fold tracker_emit es w') = signals w' \<and>
         (Inject e \<in> set (on_stop w) \<longrightarrow>
            (\<exists>r1 r2. relayed w' = relayed w @ r1 @ map (\<lambda>k. (k, e)) (on_track w) @ r2))"
proof -
  from assms(1) obtain t where t: "tracker w = Some t" by (auto simp: consistent_def)
  from assms(1,2) obtain k where k: "reemitTrackEvent w = Some k" "relays w = [Reemit k]"
    by (auto simp: consistent_def split: option.splits)
  from assms(3) have v: "fst (stop w) = Inr v" and w': "w' = snd (stop w)" by simp_all
  have "tracker_events w' = remove1 (Reemit k) (tracker_events w)"
    unfolding w' using stop_running(3) [OF assms(2) t v] k by simp
  with k have none: "relays w' = []"
    by (simp add: relays_def filter_remove1_single)
  have inj: "\<exists>r1 r2. relayed w' = relayed w @ r1 @ map (\<lambda>k. (k, e)) (on_track w) @ r2"
    if i: "Inject e \<in> set (on_stop w)"
  proof -
    define w1 where "w1 = (setRunning False w)\<lparr>signals := signals w @ [''stop'']\<rparr>"
    have e: "emit ''stop'' (setRunning False w) = call_all ''stop'' (on_stop w) w1"
      by (simp add: emit_def listeners_def setRunning_def w1_def)
    have "fst (call_all ''stop'' (on_stop w) w1) = None"
      using stop_running_emit(1) [OF assms(2) t v] unfolding e .
    moreover have "relays w1 = [Reemit k]" "on_track w1 = on_track w" "relayed w1 = relayed w"
      using k by (simp_all add: w1_def relays_def setRunning_def)
    ultimately have "\<exists>r1 r2. relayed (snd (call_all ''stop'' (on_stop w) w1)) =
        relayed w @ r1 @ map (\<lambda>k. (k, e)) (on_track w) @ r2"
      using call_all_inject [OF i, of "''stop''" w1 k] by simp
    moreover have "relayed w' = relayed (snd (call_all ''stop'' (on_stop w) w1))"
      unfolding w' stop_running_emit(2) [OF assms(2) t v] e
      by (simp add: tracker_removeListener_def split: option.splits)
    ultimately show ?thesis by simp
  qed
  show ?thesis
    using none inj by (simp add: relayed_fold_tracker_emit signals_fold_tracker_emit)
qed

theorem stop_ends_relay_witness:
  "consistent (snd (run task0)) \<and> running (snd (run task0)) \<and>
   stop (snd (run task0)) = (Inr This, snd (stop (snd (run task0)))) \<and>
   relayed (fold tracker_emit [4, 6] (snd (stop (snd (run task0))))) = [(7, 9)] \<and>
   relayed (snd (stop (snd (run task0)))) = [(7, 9)] \<and>
   relayed (snd (run task0)) = [] \<and>
   Inject 9 \<in> set (on_stop (snd (run task0))) \<and> on_track (snd (run task0)) = [7]"
proof -
  have c: "consistent (snd (run task0))" by code_simp
  have r: "running (snd (run task0))" by code_simp
  have f: "fst (stop (snd (run task0))) = Inr This" by code_simp
  then have s: "stop (snd (run task0)) = (Inr This, snd (stop (snd (run task0))))"
    by (metis prod.collapse)
  have a: "relayed (snd (stop (snd (run task0)))) = [(7, 9)]" by code_simp
  have b: "relayed (snd (run task0)) = []" by code_simp
  have i: "Inject 9 \<in> set (on_stop (snd (run task0)))" by code_simp
  have o: "on_track (snd (run task0)) = [7]" by code_simp
  show ?thesis
    using stop_ends_relay [OF c r s, of "[4, 6]" 9] c r s a b i o by simp
qed



text \<open>
  C5. The documentation of \<^verbatim>\<open>run()\<close> promises the task itself, for chaining. The first
  call returns it; a call on the task that already runs goes through \<^verbatim>\<open>return;\<close> and hands
  back \<^verbatim>\<open>undefined\<close>.
\<close>

theorem run_again_returns_undefined:
  "fst (run task0) = Inr This \<and> running (snd (run task0)) \<and>
   fst (run (snd (run task0))) = Inr Undefined"
  by code_simp

text \<open>
  C9, as stated: the stored relay handle is set if and only if the task runs. After
  \<^verbatim>\<open>run()\<close> and \<^verbatim>\<open>stop()\<close> the task does not run and the handle is still the relay of that
  run: \<^verbatim>\<open>stop()\<close> unsubscribes the relay and keeps the field.
\<close>

theorem relay_handle_counterexample:
  "consistent task0 \<and> reemitTrackEvent task0 = None \<and>
   fst (run task0) = Inr This \<and> fst (stop (snd (run task0))) = Inr This \<and>
   \<not> running (snd (stop (snd (run task0)))) \<and>
   reemitTrackEvent (snd (stop (snd (run task0)))) = Some 0"
  by code_simp

lemma apply_op_consistent:
  assumes "consistent w" and "apply_op x w = Inr w'"
  shows "consistent w'"
    and "(reemitTrackEvent w' \<noteq> None) = (reemitTrackEvent w \<noteq> None \<or> x = Run)"
proof -
  from assms(1) obtain t where t: "tracker w = Some t" by (auto simp: consistent_def)
  show "consistent w'"
  proof (cases x)
    case Run
    with assms(2) have "w' = snd (run w)" by (simp split: sum.splits)
    then show ?thesis using run_consistent [OF assms(1)] by simp
  next
    case Stop
    with assms(2) obtain v where "fst (stop w) = Inr v" "w' = snd (stop w)"
      by (auto split: sum.splits)
    then show ?thesis using stop_consistent [OF assms(1)] by simp
  qed
  show "(reemitTrackEvent w' \<noteq> None) = (reemitTrackEvent w \<noteq> None \<or> x = Run)"
  proof (cases x)
    case Run
    with assms(2) have w': "w' = snd (run w)" by (simp split: sum.splits)
    show ?thesis
    proof (cases "running w")
      case True
      with assms(1) have "reemitTrackEvent w \<noteq> None"
        by (auto simp: consistent_def split: option.splits)
      with True w' Run show ?thesis by (simp add: run_running)
    next
      case False
      show ?thesis using run_idle(2) [OF False t] w' Run by simp
    qed
  next
    case Stop
    with assms(2) obtain v where v: "fst (stop w) = Inr v" and w': "w' = snd (stop w)"
      by (auto split: sum.splits)
    show ?thesis
    proof (cases "running w")
      case True
      show ?thesis using stop_running(2) [OF True t v] w' Stop by simp
    next
      case False
      then show ?thesis using w' Stop by (simp add: stop_idle)
    qed
  qed
qed

lemma apply_ops_consistent:
  "consistent w \<Longrightarrow> apply_ops xs w = Inr w' \<Longrightarrow>
     consistent w' \<and>
     (reemitTrackEvent w' \<noteq> None) = (reemitTrackEvent w \<noteq> None \<or> Run \<in> set xs)"
proof (induction xs arbitrary: w)
  case Nil
  then show ?case by simp
next
  case (Cons x xs)
  from Cons.prems(2) obtain w1 where w1: "apply_op x w = Inr w1" "apply_ops xs w1 = Inr w'"
    by (auto split: sum.splits)
  note a = apply_op_consistent [OF Cons.prems(1) w1(1)]
  from Cons.IH [OF a(1) w1(2)] a(2) show ?case by auto
qed

text \<open>
  C9, amended. On a task that has never run, after every sequence of \<^verbatim>\<open>run()\<close> and
  \<^verbatim>\<open>stop()\<close> calls that all return: a relay is subscribed on the tracker if and only if the
  task runs; while it runs the stored handle is that one relay; and the stored handle is
  set if and only if \<^verbatim>\<open>run()\<close> has been called at all.
\<close>

theorem relay_subscribed_iff_running:
  assumes "consistent w" and "reemitTrackEvent w = None" and "apply_ops xs w = Inr w'"
  shows "(relays w' \<noteq> []) = running w' \<and>
         (running w' \<longrightarrow> (\<exists>k. reemitTrackEvent w' = Some k \<and> relays w' = [Reemit k])) \<and>
         (reemitTrackEvent w' \<noteq> None) = (Run \<in> set xs)"
proof -
  from apply_ops_consistent [OF assms(1,3)] assms(2)
  have c: "consistent w'" and h: "(reemitTrackEvent w' \<noteq> None) = (Run \<in> set xs)"
    by simp_all
  from c have "(relays w' \<noteq> []) = running w'"
    by (auto simp: consistent_def split: option.splits if_splits)
  moreover from c have "running w' \<longrightarrow> (\<exists>k. reemitTrackEvent w' = Some k \<and> relays w' = [Reemit k])"
    by (auto simp: consistent_def split: option.splits if_splits)
  ultimately show ?thesis using h by simp
qed

theorem relay_subscribed_iff_running_witness:
  "consistent task0 \<and> reemitTrackEvent task0 = None \<and>
   apply_ops [Run, Stop, Run, Run] task0 = Inr (snd (run (snd (stop (snd (run task0)))))) \<and>
   relays (snd (run (snd (stop (snd (run task0)))))) = [Reemit 1] \<and>
   running (snd (run (snd (stop (snd (run task0)))))) \<and>
   reemitTrackEvent (snd (run (snd (stop (snd (run task0)))))) = Some 1"
proof -
  have c: "consistent task0" by code_simp
  have h: "reemitTrackEvent task0 = None" by code_simp
  have r1: "fst (run task0) = Inr This" by code_simp
  have r2: "fst (stop (snd (run task0))) = Inr This" by code_simp
  have r3: "fst (run (snd (stop (snd (run task0))))) = Inr This" by code_simp
  have r4: "running (snd (run (snd (stop (snd (run task0))))))" by code_simp
  have a: "apply_ops [Run, Stop, Run, Run] task0 = Inr (snd (run (snd (stop (snd (run task0))))))"
    using r1 r2 r3 r4 by (simp add: run_running)
  have k: "relays (snd (run (snd (stop (snd (run task0)))))) = [Reemit 1]" by code_simp
  show ?thesis using relay_subscribed_iff_running [OF c h a] c h a k by auto
qed

section \<open>The sampling loop\<close>

lemma loop_kept_refl: "loop_kept w w"
  by (simp add: loop_kept_def)

lemma loop_kept_trans: "loop_kept w w1 \<Longrightarrow> loop_kept w1 w2 \<Longrightarrow> loop_kept w w2"
  by (simp add: loop_kept_def)

lemma tracker_call_loop: "loop_kept w (tracker_call e l w)"
  by (cases l) (simp_all add: loop_kept_def emit_track_def)

lemma fold_tracker_call_loop: "loop_kept w (fold (tracker_call e) ls w)"
proof (induction ls arbitrary: w)
  case Nil
  show ?case by (simp add: loop_kept_refl)
next
  case (Cons l ls)
  show ?case using loop_kept_trans [OF tracker_call_loop Cons.IH] by simp
qed

lemma fold_tracker_emit_loop: "loop_kept w (fold tracker_emit es w)"
proof (induction es arbitrary: w)
  case Nil
  show ?case by (simp add: loop_kept_refl)
next
  case (Cons e es)
  have "loop_kept w (tracker_emit e w)"
    unfolding tracker_emit_def by (rule fold_tracker_call_loop)
  from loop_kept_trans [OF this Cons.IH] show ?case by simp
qed

lemma getImageData_readable: "readable w \<Longrightarrow> getImageData w = Inr (canvas_pixels w)"
  by (simp add: getImageData_def readable_def)

lemma getImageData_unreadable: "\<not> readable w \<Longrightarrow> \<exists>e. getImageData w = Inl e"
  by (auto simp: getImageData_def readable_def)

lemma trackCanvasInternal_fault:
  "getImageData w = Inl e \<Longrightarrow> trackCanvasInternal w = (Some e, w)"
  by (simp add: trackCanvasInternal_def)

lemma trackCanvasInternal_Some:
  assumes "readable w" and "tracker w = Some t"
  shows "fst (trackCanvasInternal w) = snd (t (canvas_pixels w) (canvas_width w) (canvas_height w))"
    and "snd (trackCanvasInternal w) =
          fold tracker_emit (fst (t (canvas_pixels w) (canvas_width w) (canvas_height w)))
            (w\<lparr>tracked := tracked w @
               [(ticks w, canvas_pixels w, canvas_width w, canvas_height w)]\<rparr>)"
  using assms by (simp_all add: trackCanvasInternal_def Let_def getImageData_readable)

text \<open>Whatever it does, \<open>trackCanvasInternal\<close> changes nothing of the loop but the record of
  the tracker's calls.\<close>

lemma trackCanvasInternal_loop:
  "loop_kept (w\<lparr>tracked := tracked (snd (trackCanvasInternal w))\<rparr>) (snd (trackCanvasInternal w))"
proof (cases "getImageData w")
  case (Inl e)
  then show ?thesis by (simp add: trackCanvasInternal_fault loop_kept_def)
next
  case (Inr p)
  show ?thesis
  proof (cases "tracker w")
    case None
    with Inr show ?thesis by (simp add: trackCanvasInternal_def loop_kept_def)
  next
    case (Some t)
    define w1 where "w1 = w\<lparr>tracked := tracked w @ [(ticks w, p, canvas_width w, canvas_height w)]\<rparr>"
    have s: "snd (trackCanvasInternal w) = fold tracker_emit (fst (t p (canvas_width w) (canvas_height w))) w1"
      using Inr Some by (simp add: trackCanvasInternal_def Let_def w1_def)
    have "loop_kept w1 (snd (trackCanvasInternal w))"
      unfolding s by (rule fold_tracker_emit_loop)
    then show ?thesis by (simp add: loop_kept_def w1_def)
  qed
qed

lemma rem_is_zero_pos:
  assumes "0 \<le> c" and "c < int N"
  shows "rem_is_zero (c + 1) (int N) = (c + 1 = int N)"
proof -
  from assms have n: "0 < N" by simp
  have "(c + 1) smod int N = (c + 1) mod int N"
    using assms by (intro smod_mod_positive) simp_all
  moreover have "((c + 1) mod int N = 0) = (c + 1 = int N)"
  proof (cases "c + 1 = int N")
    case True
    then show ?thesis by simp
  next
    case False
    with assms have "c + 1 < int N" by simp
    with assms False show ?thesis by simp
  qed
  ultimately show ?thesis using n by (simp add: rem_is_zero_def js_rem_def)
qed

lemma tick_Nil: "frame_requests w = [] \<Longrightarrow> tick env w = None"
  by (simp add: tick_def)

lemma tick_miss:
  assumes "frame_requests w = r # rs" and "\<not> rem_is_zero (count w + 1) (freq w)"
  shows "tick env w = Some (requestAnimationFrame
           (w\<lparr>frame_requests := rs, ticks := Suc (ticks w), count := count w + 1\<rparr>))"
  using assms by (simp add: tick_def frame_callback_def Let_def)

lemma tick_not_ready:
  assumes "frame_requests w = r # rs" and "rem_is_zero (count w + 1) (freq w)"
    and "\<not> ready env"
  shows "tick env w = Some (requestAnimationFrame
           (w\<lparr>frame_requests := rs, ticks := Suc (ticks w), count := 0\<rparr>))"
  using assms by (simp add: tick_def frame_callback_def Let_def)

lemma tick_ready:
  assumes "frame_requests w = r # rs" and "rem_is_zero (count w + 1) (freq w)"
    and "ready env"
    and "w3 = try_drawImage env (w\<lparr>frame_requests := rs, ticks := Suc (ticks w), count := 0\<rparr>)"
  shows "tick env w =
           Some (case fst (trackCanvasInternal w3) of
                   None \<Rightarrow> requestAnimationFrame (snd (trackCanvasInternal w3))
                 | Some e \<Rightarrow> (snd (trackCanvasInternal w3))
                     \<lparr>uncaught := uncaught (snd (trackCanvasInternal w3)) @ [e]\<rparr>)"
  using assms by (simp add: tick_def frame_callback_def Let_def split: option.splits)

text \<open>The counter and the tick number after one tick, whatever the tick does.\<close>

lemma tick_counts:
  assumes "sampling N w" and "tick env w = Some w'"
  shows "sampling N w'"
    and "ticks w' = Suc (ticks w)"
    and "tracker w' = tracker w"
    and "canvas_width w' = canvas_width w"
    and "canvas_height w' = canvas_height w"
    and "count w' = (if count w + 1 = int N then 0 else count w + 1)"
proof -
  from assms(1) obtain t where t: "tracker w = Some t" by (auto simp: sampling_def)
  from assms(1) have N: "0 < N" "freq w = int N" "0 \<le> count w" "count w < int N"
    by (simp_all add: sampling_def)
  from assms(2) obtain r rs where fr: "frame_requests w = r # rs"
    by (cases "frame_requests w") (simp_all add: tick_Nil)
  have hit: "rem_is_zero (count w + 1) (freq w) = (count w + 1 = int N)"
    unfolding N(2) using N(3,4) by (rule rem_is_zero_pos)
  consider (miss) "count w + 1 \<noteq> int N"
    | (idle) "count w + 1 = int N" "\<not> ready env"
    | (fires) "count w + 1 = int N" "ready env"
    by blast
  then have "sampling N w' \<and> ticks w' = Suc (ticks w) \<and> tracker w' = tracker w \<and>
    canvas_width w' = canvas_width w \<and> canvas_height w' = canvas_height w \<and>
    count w' = (if count w + 1 = int N then 0 else count w + 1)"
  proof cases
    case miss
    then have "w' = requestAnimationFrame
           (w\<lparr>frame_requests := rs, ticks := Suc (ticks w), count := count w + 1\<rparr>)"
      using tick_miss [OF fr, of env] assms(2) hit by simp
    then show ?thesis
      using miss N t by (simp add: requestAnimationFrame_def sampling_def)
  next
    case idle
    then have "w' = requestAnimationFrame
           (w\<lparr>frame_requests := rs, ticks := Suc (ticks w), count := 0\<rparr>)"
      using tick_not_ready [OF fr, of env] assms(2) hit by simp
    then show ?thesis
      using idle N t by (simp add: requestAnimationFrame_def sampling_def)
  next
    case fires
    define w3 where
      "w3 = try_drawImage env (w\<lparr>frame_requests := rs, ticks := Suc (ticks w), count := 0\<rparr>)"
    define w4 where "w4 = snd (trackCanvasInternal w3)"
    have w': "w' = (case fst (trackCanvasInternal w3) of
                   None \<Rightarrow> requestAnimationFrame w4
                 | Some e \<Rightarrow> w4\<lparr>uncaught := uncaught w4 @ [e]\<rparr>)"
      using tick_ready [OF fr _ fires(2) w3_def] assms(2) hit fires(1)
      by (simp add: w4_def split: option.splits)
    have l: "loop_kept (w3\<lparr>tracked := tracked w4\<rparr>) w4"
      unfolding w4_def by (rule trackCanvasInternal_loop)
    have k: "task_kept w3 w4" unfolding w4_def by (rule trackCanvasInternal_kept)
    have "sampling N w4 \<and> ticks w4 = Suc (ticks w) \<and> tracker w4 = tracker w \<and>
      canvas_width w4 = canvas_width w \<and> canvas_height w4 = canvas_height w \<and> count w4 = 0"
      using l k N t
      by (simp add: loop_kept_def task_kept_def sampling_def w3_def try_drawImage_def)
    then show ?thesis
      unfolding w' using fires t
      by (cases "fst (trackCanvasInternal w3)") (auto simp: requestAnimationFrame_def sampling_def)
  qed
  then show "sampling N w'"
    and "ticks w' = Suc (ticks w)"
    and "tracker w' = tracker w"
    and "canvas_width w' = canvas_width w"
    and "canvas_height w' = canvas_height w"
    and "count w' = (if count w + 1 = int N then 0 else count w + 1)"
    by blast+
qed

text \<open>A tick in which the counter misses the divisor or the video is not ready.\<close>

lemma tick_skip:
  assumes "sampling N w" and "frame_requests w = r # rs"
    and "\<not> ready env \<or> count w + 1 \<noteq> int N"
  shows "\<exists>w'. tick env w = Some w' \<and> tracked w' = tracked w \<and> relayed w' = relayed w \<and>
           signals w' = signals w \<and> canvas_pixels w' = canvas_pixels w \<and>
           canvas_tainted w' = canvas_tainted w \<and> tracker_events w' = tracker_events w \<and>
           on_track w' = on_track w \<and>
           frame_requests w' = rs @ [next_request w] \<and>
           requestId w' = Some (next_request w) \<and> uncaught w' = uncaught w \<and>
           count w' = (if count w + 1 = int N then 0 else count w + 1)"
proof -
  from assms(1) have N: "0 < N" "freq w = int N" "0 \<le> count w" "count w < int N"
    by (simp_all add: sampling_def)
  have hit: "rem_is_zero (count w + 1) (freq w) = (count w + 1 = int N)"
    unfolding N(2) using N(3,4) by (rule rem_is_zero_pos)
  show ?thesis
  proof (cases "count w + 1 = int N")
    case True
    with assms(3) have "\<not> ready env" by simp
    with True show ?thesis
      using tick_not_ready [OF assms(2), of env] hit by (simp add: requestAnimationFrame_def)
  next
    case False
    then show ?thesis
      using tick_miss [OF assms(2), of env] hit by (simp add: requestAnimationFrame_def)
  qed
qed

lemma relayed_fold_tracker_emit_running:
  "relays w = [Reemit k] \<Longrightarrow>
     relayed (fold tracker_emit es w) =
       relayed w @ concat (map (\<lambda>e. map (\<lambda>k. (k, e)) (on_track w)) es)"
proof (induction es arbitrary: w)
  case Nil
  show ?case by simp
next
  case (Cons e es)
  have "relays (tracker_emit e w) = relays w" "on_track (tracker_emit e w) = on_track w"
    using tracker_emit_kept [of w e] by (simp_all add: task_kept_def relays_def)
  with Cons show ?case by (simp add: relayed_tracker_emit)
qed

text \<open>A tick in which the counter reaches the divisor, the video is ready, and the canvas
  can be read after the copy.\<close>

lemma tick_extracts:
  assumes "sampling N w" and "readable w" and "frame_requests w = r # rs"
    and "tracker w = Some t" and "relays w = [Reemit k]"
    and "count w + 1 = int N" and "ready env" and "\<not> cross_origin env"
    and "p = (if copy_fault env then canvas_pixels w else Some (frame env))"
  shows "\<exists>w'. tick env w = Some w' \<and>
           tracked w' = tracked w @ [(Suc (ticks w), p, canvas_width w, canvas_height w)] \<and>
           relayed w' = relayed w @ deliveries t (on_track w) p (canvas_width w) (canvas_height w) \<and>
           canvas_pixels w' = p \<and> canvas_tainted w' = canvas_tainted w \<and>
           tracker_events w' = tracker_events w \<and> on_track w' = on_track w \<and>
           frame_requests w' =
             (if snd (t p (canvas_width w) (canvas_height w)) = None
              then rs @ [next_request w] else rs) \<and>
           uncaught w' =
             (case snd (t p (canvas_width w) (canvas_height w)) of
                None \<Rightarrow> uncaught w | Some e \<Rightarrow> uncaught w @ [e])"
proof -
  from assms(1) have N: "0 < N" "freq w = int N" "0 \<le> count w" "count w < int N"
    by (simp_all add: sampling_def)
  have hit: "rem_is_zero (count w + 1) (freq w)"
    using rem_is_zero_pos [OF N(3,4)] assms(6) N(2) by simp
  define w3 where
    "w3 = try_drawImage env (w\<lparr>frame_requests := rs, ticks := Suc (ticks w), count := 0\<rparr>)"
  define w3' where "w3' = w3\<lparr>tracked := tracked w @
                   [(Suc (ticks w), p, canvas_width w, canvas_height w)]\<rparr>"
  define w4 where "w4 = fold tracker_emit (fst (t p (canvas_width w) (canvas_height w))) w3'"
  have r3: "readable w3" "tracker w3 = Some t" "canvas_pixels w3 = p"
    "canvas_width w3 = canvas_width w" "canvas_height w3 = canvas_height w"
    "ticks w3 = Suc (ticks w)" "tracked w3 = tracked w"
    using assms(2,4,8,9) by (simp_all add: w3_def try_drawImage_def readable_def)
  have f: "fst (trackCanvasInternal w3) = snd (t p (canvas_width w) (canvas_height w))"
    using trackCanvasInternal_Some(1) [OF r3(1,2)] r3 by simp
  have s: "snd (trackCanvasInternal w3) = w4"
    using trackCanvasInternal_Some(2) [OF r3(1,2)] r3 by (simp add: w4_def w3'_def)
  have w': "tick env w = Some (case snd (t p (canvas_width w) (canvas_height w)) of
                   None \<Rightarrow> requestAnimationFrame w4
                 | Some e \<Rightarrow> w4\<lparr>uncaught := uncaught w4 @ [e]\<rparr>)"
    using tick_ready [OF assms(3) hit assms(7) w3_def] by (simp add: f s split: option.splits)
  have l: "loop_kept w3' w4" unfolding w4_def by (rule fold_tracker_emit_loop)
  have k: "task_kept w3' w4" unfolding w4_def by (rule fold_tracker_emit_kept)
  have "relays w3' = [Reemit k]" "on_track w3' = on_track w" "relayed w3' = relayed w"
    using assms(5) by (simp_all add: relays_def w3'_def w3_def try_drawImage_def)
  with relayed_fold_tracker_emit_running [of w3' k]
  have rel: "relayed w4 =
      relayed w @ deliveries t (on_track w) p (canvas_width w) (canvas_height w)"
    by (simp add: w4_def deliveries_def)
  have rest: "tracked w4 = tracked w @ [(Suc (ticks w), p, canvas_width w, canvas_height w)]"
    "canvas_pixels w4 = p" "canvas_tainted w4 = canvas_tainted w"
    "frame_requests w4 = rs" "uncaught w4 = uncaught w" "next_request w4 = next_request w"
    "tracker_events w4 = tracker_events w" "on_track w4 = on_track w"
    using l k assms(8,9)
    by (simp_all add: loop_kept_def task_kept_def w3'_def w3_def try_drawImage_def)
  show ?thesis
    unfolding w' using rel rest
    by (cases "snd (t p (canvas_width w) (canvas_height w))")
      (simp_all add: requestAnimationFrame_def)
qed

text \<open>A tick in which the counter reaches the divisor, the video is ready, and the canvas
  cannot be read: the error of \<open>getImageData\<close> leaves the callback; the tracker is not
  called and no frame is requested.\<close>

lemma tick_unreadable:
  assumes "sampling N w" and "frame_requests w = r # rs"
    and "count w + 1 = int N" and "ready env"
    and "\<not> readable (try_drawImage env w)"
  shows "\<exists>w' e. tick env w = Some w' \<and> tracked w' = tracked w \<and> relayed w' = relayed w \<and>
           frame_requests w' = rs \<and> uncaught w' = uncaught w @ [e]"
proof -
  from assms(1) have N: "0 < N" "freq w = int N" "0 \<le> count w" "count w < int N"
    by (simp_all add: sampling_def)
  have hit: "rem_is_zero (count w + 1) (freq w)"
    using rem_is_zero_pos [OF N(3,4)] assms(3) N(2) by simp
  define w3 where
    "w3 = try_drawImage env (w\<lparr>frame_requests := rs, ticks := Suc (ticks w), count := 0\<rparr>)"
  have "\<not> readable w3"
    using assms(5) by (simp add: w3_def try_drawImage_def readable_def split: if_splits)
  then obtain e where e: "getImageData w3 = Inl e"
    using getImageData_unreadable by blast
  have "tick env w = Some (w3\<lparr>uncaught := uncaught w3 @ [e]\<rparr>)"
    using tick_ready [OF assms(2) hit assms(4) w3_def]
    by (simp add: trackCanvasInternal_fault [OF e])
  then show ?thesis
    by (auto simp: w3_def try_drawImage_def)
qed

lemma tick_alive:
  assumes "sampling N w" and "readable w" and "frame_requests w = r # rs"
    and "tracker w = Some t" and "reliable t" and "\<not> cross_origin env"
  shows "\<exists>w'. tick env w = Some w' \<and> frame_requests w' = rs @ [next_request w] \<and>
           requestId w' = Some (next_request w) \<and> uncaught w' = uncaught w \<and> readable w'"
proof (cases "\<not> ready env \<or> count w + 1 \<noteq> int N")
  case True
  from tick_skip [OF assms(1,3) True] obtain w' where
    w': "tick env w = Some w'" "canvas_tainted w' = canvas_tainted w"
    "frame_requests w' = rs @ [next_request w]" "requestId w' = Some (next_request w)"
    "uncaught w' = uncaught w"
    by blast
  from tick_counts(4,5) [OF assms(1) w'(1)] w'(2) assms(2) have "readable w'"
    by (simp add: readable_def)
  with w' show ?thesis by blast
next
  case False
  then have hit: "count w + 1 = int N" and rd: "ready env" by simp_all
  from assms(1) have N: "0 < N" "freq w = int N" "0 \<le> count w" "count w < int N"
    by (simp_all add: sampling_def)
  have z: "rem_is_zero (count w + 1) (freq w)"
    using rem_is_zero_pos [OF N(3,4)] hit N(2) by simp
  define w3 where
    "w3 = try_drawImage env (w\<lparr>frame_requests := rs, ticks := Suc (ticks w), count := 0\<rparr>)"
  define w4 where "w4 = snd (trackCanvasInternal w3)"
  have r3: "readable w3" "tracker w3 = Some t"
    using assms(2,4,6) by (simp_all add: w3_def try_drawImage_def readable_def)
  have "fst (trackCanvasInternal w3) = None"
    using trackCanvasInternal_Some(1) [OF r3] assms(5) by (simp add: reliable_def)
  then have w': "tick env w = Some (requestAnimationFrame w4)"
    using tick_ready [OF assms(3) z rd w3_def] by (simp add: w4_def)
  have l: "loop_kept (w3\<lparr>tracked := tracked w4\<rparr>) w4"
    unfolding w4_def by (rule trackCanvasInternal_loop)
  then have "frame_requests w4 = rs" "next_request w4 = next_request w"
    "uncaught w4 = uncaught w" "readable w4"
    using r3(1) by (simp_all add: loop_kept_def w3_def try_drawImage_def readable_def)
  then show ?thesis
    unfolding w' by (simp add: requestAnimationFrame_def readable_def)
qed

lemma run_ticks_snoc:
  "run_ticks (envs @ [env]) w =
     (case run_ticks envs w of None \<Rightarrow> None | Some w' \<Rightarrow> tick env w')"
proof (induction envs arbitrary: w)
  case Nil
  show ?case by (simp split: option.splits)
next
  case (Cons a envs)
  show ?case by (simp add: Cons.IH split: option.splits)
qed

lemma counter_hits:
  assumes "0 < N"
  shows "(int (M mod N) + 1 = int N) = (N dvd Suc M)"
proof -
  have "(N dvd Suc M) = (Suc M mod N = 0)" by (simp add: dvd_eq_mod_eq_0)
  also have "\<dots> = (Suc (M mod N) = N)" by (simp add: mod_Suc)
  also have "\<dots> = (int (M mod N) + 1 = int N)" by auto
  finally show ?thesis by simp
qed

lemma filter_dvd_upt:
  assumes "0 < N"
  shows "[i \<leftarrow> [1..<Suc M]. N dvd i] = map (\<lambda>k. k * N) [1..<Suc (M div N)]"
proof (induction M)
  case 0
  from assms show ?case by simp
next
  case (Suc M)
  show ?case
  proof (cases "N dvd Suc M")
    case True
    then have d: "Suc M div N = Suc (M div N)" by (simp add: div_Suc dvd_eq_mod_eq_0)
    from True have "Suc M div N * N = Suc M" by simp
    with d have "Suc (M div N) * N = Suc M" by simp
    with True d Suc show ?thesis by simp
  next
    case False
    then have "Suc M div N = M div N" by (simp add: div_Suc dvd_eq_mod_eq_0)
    with False Suc show ?thesis by simp
  qed
qed

lemma hit_ticks_snoc:
  "hit_ticks N (envs @ [env]) =
     hit_ticks N envs @ (if N dvd Suc (length envs) \<and> ready env then [Suc (length envs)] else [])"
proof -
  have "[i \<leftarrow> [1..<Suc (length envs)]. N dvd i \<and> ready ((envs @ [env]) ! (i - 1))] =
        [i \<leftarrow> [1..<Suc (length envs)]. N dvd i \<and> ready (envs ! (i - 1))]"
    by (rule filter_cong) (auto simp: nth_append)
  then show ?thesis by (simp add: hit_ticks_def)
qed

lemma hit_ticks_bound: "i \<in> set (hit_ticks N envs) \<Longrightarrow> 1 \<le> i \<and> i \<le> length envs"
  by (auto simp: hit_ticks_def)

lemma hit_ticks_all_ready:
  assumes "0 < N" and "\<forall>env \<in> set envs. ready env"
  shows "hit_ticks N envs = map (\<lambda>k. k * N) [1..<Suc (length envs div N)]"
proof -
  have "hit_ticks N envs = [i \<leftarrow> [1..<Suc (length envs)]. N dvd i]"
    unfolding hit_ticks_def using assms(2) by (intro filter_cong) auto
  then show ?thesis by (simp only: filter_dvd_upt [OF assms(1)])
qed

lemma nth_hit_ticks_snoc:
  "i \<in> set (hit_ticks N envs) \<Longrightarrow> (envs @ [env]) ! (i - Suc 0) = envs ! (i - Suc 0)"
  by (auto dest!: hit_ticks_bound simp: nth_append)

lemma loop_counts:
  assumes "sampling N w" and "count w = 0"
  shows "run_ticks envs w = Some w' \<Longrightarrow>
     sampling N w' \<and> count w' = int (length envs mod N) \<and>
     ticks w' = ticks w + length envs \<and> tracker w' = tracker w \<and>
     canvas_width w' = canvas_width w \<and> canvas_height w' = canvas_height w"
proof (induction envs arbitrary: w' rule: rev_induct)
  case Nil
  with assms show ?case by (simp add: sampling_def)
next
  case (snoc env envs)
  from snoc.prems obtain w1 where w1: "run_ticks envs w = Some w1" and t: "tick env w1 = Some w'"
    by (auto simp: run_ticks_snoc split: option.splits)
  note i = snoc.IH [OF w1]
  from i have s: "sampling N w1" and c: "count w1 = int (length envs mod N)" by simp_all
  from s have N: "0 < N" by (simp add: sampling_def)
  note f = tick_counts [OF s t]
  have hit: "(count w1 + 1 = int N) = (N dvd Suc (length envs))"
    unfolding c by (rule counter_hits [OF N])
  have "count w' = int (length (envs @ [env]) mod N)"
    using f(6) hit c by (auto simp: mod_Suc dvd_eq_mod_eq_0)
  with f i show ?case by simp
qed

lemma loop_extracts:
  assumes "sampling N w" and "count w = 0" and "readable w" and "tracker w = Some t"
    and "relays w = [Reemit k]"
  shows "\<forall>env \<in> set envs. \<not> copy_fault env \<and> \<not> cross_origin env \<Longrightarrow>
     run_ticks envs w = Some w' \<Longrightarrow>
     readable w' \<and> relays w' = [Reemit k] \<and> on_track w' = on_track w \<and>
     tracked w' = tracked w @
       map (\<lambda>i. (ticks w + i, Some (frame (envs ! (i - 1))), canvas_width w, canvas_height w))
         (hit_ticks N envs) \<and>
     relayed w' = relayed w @
       concat (map (\<lambda>i. deliveries t (on_track w) (Some (frame (envs ! (i - 1))))
                        (canvas_width w) (canvas_height w))
         (hit_ticks N envs))"
proof (induction envs arbitrary: w' rule: rev_induct)
  case Nil
  with assms show ?case by (simp add: hit_ticks_def)
next
  case (snoc env envs)
  from snoc.prems(2) obtain w1 where w1: "run_ticks envs w = Some w1" and t: "tick env w1 = Some w'"
    by (auto simp: run_ticks_snoc split: option.splits)
  from snoc.prems(1) have ok: "\<forall>env \<in> set envs. \<not> copy_fault env \<and> \<not> cross_origin env"
    and e: "\<not> copy_fault env" "\<not> cross_origin env"
    by simp_all
  note i = snoc.IH [OF ok w1]
  note c = loop_counts [OF assms(1,2) w1]
  from c have s: "sampling N w1" by simp
  from s have N: "0 < N" by (simp add: sampling_def)
  from c assms(4) have t1: "tracker w1 = Some t" by simp
  from t obtain r rs where fr: "frame_requests w1 = r # rs"
    by (cases "frame_requests w1") (simp_all add: tick_Nil)
  have hit: "(count w1 + 1 = int N) = (N dvd Suc (length envs))"
    using c counter_hits [OF N, of "length envs"] by simp
  show ?case
  proof (cases "N dvd Suc (length envs) \<and> ready env")
    case True
    then have h: "count w1 + 1 = int N" and rd: "ready env" using hit by simp_all
    from i have r1: "readable w1" and k1: "relays w1 = [Reemit k]" by simp_all
    have p: "Some (frame env) = (if copy_fault env then canvas_pixels w1 else Some (frame env))"
      using e by simp
    from tick_extracts [OF s r1 fr t1 k1 h rd e(2) p] t
    have x: "tracked w' = tracked w1 @ [(Suc (ticks w1), Some (frame env), canvas_width w1, canvas_height w1)]"
      "relayed w' = relayed w1 @ deliveries t (on_track w1) (Some (frame env)) (canvas_width w1) (canvas_height w1)"
      "canvas_tainted w' = canvas_tainted w1" "tracker_events w' = tracker_events w1"
      "on_track w' = on_track w1"
      by auto
    from tick_counts(4,5) [OF s t] x(3) r1 have "readable w'" by (simp add: readable_def)
    moreover from x(4) k1 have "relays w' = [Reemit k]" by (simp add: relays_def)
    ultimately show ?thesis
      using True x i c by (simp add: hit_ticks_snoc nth_hit_ticks_snoc cong: map_cong)
  next
    case False
    then have sk: "\<not> ready env \<or> count w1 + 1 \<noteq> int N" using hit by auto
    from tick_skip [OF s fr sk] t
    have x: "tracked w' = tracked w1" "relayed w' = relayed w1"
      "canvas_tainted w' = canvas_tainted w1" "tracker_events w' = tracker_events w1"
      "on_track w' = on_track w1"
      by auto
    from i have r1: "readable w1" and k1: "relays w1 = [Reemit k]" by simp_all
    from tick_counts(4,5) [OF s t] x(3) r1 have "readable w'" by (simp add: readable_def)
    moreover from x(4) k1 have "relays w' = [Reemit k]" by (simp add: relays_def)
    ultimately show ?thesis
      using x i by (simp add: False hit_ticks_snoc nth_hit_ticks_snoc cong: map_cong)
  qed
qed

lemma loop_alive:
  assumes "reliable t"
  shows "sampling N w \<Longrightarrow> readable w \<Longrightarrow> tracker w = Some t \<Longrightarrow> frame_requests w \<noteq> [] \<Longrightarrow>
     \<forall>env \<in> set envs. \<not> cross_origin env \<Longrightarrow>
     \<exists>w'. run_ticks envs w = Some w' \<and> frame_requests w' \<noteq> [] \<and> uncaught w' = uncaught w"
proof (induction envs arbitrary: w)
  case Nil
  then show ?case by simp
next
  case (Cons env envs)
  from Cons.prems(4) obtain r rs where fr: "frame_requests w = r # rs"
    by (cases "frame_requests w") simp_all
  from Cons.prems(5) have e: "\<not> cross_origin env" and es: "\<forall>env \<in> set envs. \<not> cross_origin env"
    by simp_all
  from tick_alive [OF Cons.prems(1,2) fr Cons.prems(3) assms e]
  obtain w1 where w1: "tick env w = Some w1" "frame_requests w1 = rs @ [next_request w]"
    "uncaught w1 = uncaught w" "readable w1"
    by blast
  note f = tick_counts [OF Cons.prems(1) w1(1)]
  from f(3) Cons.prems(3) have t1: "tracker w1 = Some t" by simp
  from w1(2) have ne: "frame_requests w1 \<noteq> []" by simp
  from Cons.IH [OF f(1) w1(4) t1 ne es] obtain w' where
    "run_ticks envs w1 = Some w'" "frame_requests w' \<noteq> []" "uncaught w' = uncaught w1"
    by blast
  with w1 show ?case by simp
qed

lemma toLowerCase_VIDEO: "toLowerCase ''VIDEO'' = ''video''"
  by code_simp

lemma track_video:
  assumes "one h doc = Inr (Some el)" and "toLowerCase (nodeName el) = ''video''"
  shows "fst (track h (Some t) (Some opts) doc w0) = Inr This"
    and "freq (snd (track h (Some t) (Some opts) doc w0)) =
           (case opt_freq opts of Some f \<Rightarrow> f | None \<Rightarrow> 100)"
    and "count (snd (track h (Some t) (Some opts) doc w0)) = 0"
    and "tracker (snd (track h (Some t) (Some opts) doc w0)) = Some t"
    and "frame_requests (snd (track h (Some t) (Some opts) doc w0)) =
           frame_requests w0 @ [next_request w0]"
    and "requestId (snd (track h (Some t) (Some opts) doc w0)) = Some (next_request w0)"
    and "tracked (snd (track h (Some t) (Some opts) doc w0)) = tracked w0"
    and "running (snd (track h (Some t) (Some opts) doc w0))"
    and "reemitTrackEvent (snd (track h (Some t) (Some opts) doc w0)) = Some (closures w0)"
    and "tracker_events (snd (track h (Some t) (Some opts) doc w0)) =
           tracker_events w0 @ [Reemit (closures w0)]"
    and "media_requests (snd (track h (Some t) (Some opts) doc w0)) =
           media_requests w0 @ (if opt_camera opts then [opt_audio opts] else [])"
    and "canvas_width (snd (track h (Some t) (Some opts) doc w0)) = offsetWidth el"
    and "canvas_height (snd (track h (Some t) (Some opts) doc w0)) = offsetHeight el"
    and "\<not> canvas_tainted (snd (track h (Some t) (Some opts) doc w0))"
    and "on_track (snd (track h (Some t) (Some opts) doc w0)) = []"
    and "relayed (snd (track h (Some t) (Some opts) doc w0)) = relayed w0"
    and "ticks (snd (track h (Some t) (Some opts) doc w0)) = ticks w0"
  using assms
  by (simp_all add: track_def trackVideo_def new_TrackerTask_def setTracker_def run_def
      inRunning_def setRunning_def tracker_on_def emit_def listeners_def on_def
      requestAnimationFrame_def resizeCanvas_def initUserMedia_def Let_def)

lemma fold_on_track_add: "fold on_track_add ks w = w\<lparr>on_track := on_track w @ ks\<rparr>"
  by (induction ks arbitrary: w) (simp_all add: on_track_add_def)

text \<open>The state in which the loop starts: a video has been tracked and the caller has
  subscribed the listeners \<open>ks\<close> to the task's \<^verbatim>\<open>track\<close> events.\<close>

lemma video_started:
  assumes "one h doc = Inr (Some el)" and "toLowerCase (nodeName el) = ''video''"
    and "w = fold on_track_add ks (snd (track h (Some t) (Some opts) doc w0))"
  shows "freq w = (case opt_freq opts of Some f \<Rightarrow> f | None \<Rightarrow> 100)"
    and "count w = 0"
    and "tracker w = Some t"
    and "frame_requests w = frame_requests w0 @ [next_request w0]"
    and "canvas_width w = offsetWidth el"
    and "canvas_height w = offsetHeight el"
    and "\<not> canvas_tainted w"
    and "on_track w = ks"
    and "tracker_events w = tracker_events w0 @ [Reemit (closures w0)]"
  unfolding assms(3) fold_on_track_add
  using track_video [OF assms(1,2), of t opts w0] by simp_all

lemma video_sampling:
  assumes "0 < N" and "one h doc = Inr (Some el)" and "toLowerCase (nodeName el) = ''video''"
    and "opt_freq opts = Some (int N)"
    and "w = fold on_track_add ks (snd (track h (Some t) (Some opts) doc w0))"
  shows "sampling N w"
  using assms(1,4) video_started(1-3) [OF assms(2,3,5)] by (simp add: sampling_def)

section \<open>The claims about the sampling loop\<close>

text \<open>
  C1, as stated: with \<^verbatim>\<open>freq\<close> \<open>N\<close> and the video ready in every tick, the tracker is
  called in the ticks \<open>N\<close>, \<open>2N\<close>, ... A video that is not displayed has width and height
  0, and so has the working canvas: with \<^verbatim>\<open>freq\<close> 1, in tick 1 \<^verbatim>\<open>getImageData\<close> throws,
  the tracker is not called, nothing is relayed, no frame is requested, and a second tick
  never comes. The same happens on a displayed video once a frame of another origin has
  been copied.
\<close>

theorem extraction_every_N_ticks_counterexample:
  "map_option tracked (run_ticks [good 5] (hidden_task 1)) = Some [] \<and>
   map_option relayed (run_ticks [good 5] (hidden_task 1)) = Some [] \<and>
   map_option uncaught (run_ticks [good 5] (hidden_task 1)) =
     Some [DOMException ''IndexSizeError''] \<and>
   map_option frame_requests (run_ticks [good 5] (hidden_task 1)) = Some [] \<and>
   map_option ticks (run_ticks [good 5, good 6] (hidden_task 1)) = None \<and>
   map_option tracked (run_ticks [foreign 5] (video_task 1)) = Some [] \<and>
   map_option uncaught (run_ticks [foreign 5] (video_task 1)) =
     Some [DOMException ''SecurityError'']"
  by code_simp

text \<open>
  C1, amended. A video with a width and a height is tracked with \<^verbatim>\<open>freq\<close> a positive
  integer \<open>N\<close>, on a tracker that carries no relay yet, and the caller's listeners \<open>ks\<close>
  are subscribed to the \<^verbatim>\<open>track\<close> events of the task; in every tick the video is ready, the copy of the frame succeeds and the
  frame is of the page's origin. After any number \<open>M\<close> of ticks of the loop, the tracker
  has been called exactly in the ticks \<open>N\<close>, \<open>2N\<close>, ..., \<open>(M div N) N\<close>, each time on the
  frame of that tick with the width and the height of the video, and what it detected in
  each has been relayed to every listener; the counter stands at \<open>M mod N\<close>, so at 0 after
  each extraction. With a tracker that never throws, the loop does run \<open>M\<close> ticks, for
  every \<open>M\<close>.
\<close>

theorem extraction_every_N_ticks:
  assumes "0 < N"
    and "one h doc = Inr (Some el)" and "toLowerCase (nodeName el) = ''video''"
    and "0 < offsetWidth el" and "0 < offsetHeight el"
    and "opt_freq opts = Some (int N)"
    and "relays w0 = []"
    and "w = fold on_track_add ks (snd (track h (Some t) (Some opts) doc w0))"
    and "\<forall>env \<in> set envs. ready env \<and> \<not> copy_fault env \<and> \<not> cross_origin env"
  shows "(\<forall>w'. run_ticks envs w = Some w' \<longrightarrow>
            tracked w' = tracked w @
              map (\<lambda>i. (ticks w + i, Some (frame (envs ! (i - 1))),
                         offsetWidth el, offsetHeight el))
                (map (\<lambda>k. k * N) [1..<Suc (length envs div N)]) \<and>
            relayed w' = relayed w @
              concat (map (\<lambda>i. deliveries t ks (Some (frame (envs ! (i - 1))))
                                 (offsetWidth el) (offsetHeight el))
                (map (\<lambda>k. k * N) [1..<Suc (length envs div N)])) \<and>
            count w' = int (length envs mod N)) \<and>
         (reliable t \<longrightarrow> (\<exists>w'. run_ticks envs w = Some w'))"
proof -
  note st = video_started [OF assms(2,3,8)]
  have s: "sampling N w" using assms(1,2,3,6,8) by (rule video_sampling)
  have r: "readable w" using st(5-7) assms(4,5) by (simp add: readable_def)
  have k: "relays w = [Reemit (closures w0)]"
    using st(9) assms(7) by (simp add: relays_def)
  have f: "frame_requests w \<noteq> []" using st(4) by simp
  have ok: "\<forall>env \<in> set envs. \<not> copy_fault env \<and> \<not> cross_origin env"
    and ok': "\<forall>env \<in> set envs. \<not> cross_origin env"
    and rd: "\<forall>env \<in> set envs. ready env"
    using assms(9) by simp_all
  note h = hit_ticks_all_ready [OF assms(1) rd]
  have "tracked w' = tracked w @
              map (\<lambda>i. (ticks w + i, Some (frame (envs ! (i - 1))),
                         offsetWidth el, offsetHeight el))
                (map (\<lambda>k. k * N) [1..<Suc (length envs div N)]) \<and>
        relayed w' = relayed w @
              concat (map (\<lambda>i. deliveries t ks (Some (frame (envs ! (i - 1))))
                                 (offsetWidth el) (offsetHeight el))
                (map (\<lambda>k. k * N) [1..<Suc (length envs div N)])) \<and>
        count w' = int (length envs mod N)"
    if run: "run_ticks envs w = Some w'" for w'
    using loop_extracts [OF s st(2) r st(3) k ok run] loop_counts [OF s st(2) run]
    unfolding h st(5,6,8) by simp
  moreover have "\<exists>w'. run_ticks envs w = Some w'" if "reliable t"
    using loop_alive [OF that s r st(3) f ok'] by blast
  ultimately show ?thesis by blast
qed

theorem extraction_every_N_ticks_witness:
  "(0::nat) < 3 \<and> one (Node video) empty_document = Inr (Some video) \<and>
   toLowerCase (nodeName video) = ''video'' \<and>
   0 < offsetWidth video \<and> 0 < offsetHeight video \<and>
   opt_freq (with_freq 3) = Some (int 3) \<and>
   relays (page [] :: (nat, nat) world) = [] \<and>
   reliable echo \<and>
   map_option tracked
     (run_ticks (map good [1..<8])
        (fold on_track_add [7]
           (snd (track (Node video) (Some echo) (Some (with_freq 3)) empty_document (page [])))))
     = Some [(3, Some 3, 4, 3), (6, Some 6, 4, 3)] \<and>
   map_option relayed
     (run_ticks (map good [1..<8])
        (fold on_track_add [7]
           (snd (track (Node video) (Some echo) (Some (with_freq 3)) empty_document (page [])))))
     = Some [(7, 3), (7, 6)] \<and>
   map_option count
     (run_ticks (map good [1..<8])
        (fold on_track_add [7]
           (snd (track (Node video) (Some echo) (Some (with_freq 3)) empty_document (page [])))))
     = Some 1"
proof -
  let ?w = "fold on_track_add [7]
    (snd (track (Node video) (Some echo) (Some (with_freq 3)) empty_document (page [])))"
  have a: "one (Node video) empty_document = Inr (Some video)" by simp
  have b: "toLowerCase (nodeName video) = ''video''" by (simp add: video_def toLowerCase_VIDEO)
  have c: "opt_freq (with_freq 3) = Some (int 3)" by (simp add: with_freq_def)
  have d: "\<forall>env \<in> set (map good [1..<8]). ready env \<and> \<not> copy_fault env \<and> \<not> cross_origin env"
    by (simp add: good_def)
  have e: "reliable echo" by (simp add: reliable_def echo_def)
  have g: "0 < offsetWidth video" "0 < offsetHeight video" by (simp_all add: video_def)
  have p: "relays (page [] :: (nat, nat) world) = []" by (simp add: relays_def page_def)
  have v: "tracked ?w = []" "relayed ?w = []" "ticks ?w = 0" by code_simp+
  have l1: "map (\<lambda>i. (0 + i, Some (frame (map good [1..<8] ! (i - 1))),
                         offsetWidth video, offsetHeight video))
                (map (\<lambda>k. k * 3) [1..<Suc (length (map good [1..<8]) div 3)]) =
            [(3, Some 3, 4, 3), (6, Some 6, 4, 3)]"
    by code_simp
  have l2: "concat (map (\<lambda>i. deliveries echo [7] (Some (frame (map good [1..<8] ! (i - 1))))
                                 (offsetWidth video) (offsetHeight video))
                (map (\<lambda>k. k * 3) [1..<Suc (length (map good [1..<8]) div 3)])) =
            [(7, 3), (7, 6)]"
    by code_simp
  have m: "int (length (map good [1..<8]) mod 3) = 1" by simp
  from extraction_every_N_ticks [OF _ a b g c p refl d, where t = echo and ks = "[7]"] e
  obtain w' where "run_ticks (map good [1..<8]) ?w = Some w'"
    "tracked w' = [(3, Some 3, 4, 3), (6, Some 6, 4, 3)]"
    "relayed w' = [(7, 3), (7, 6)]" "count w' = 1"
    unfolding v l1 l2 m by auto
  then show ?thesis using a b c e g p by simp
qed

text \<open>
  C6, as stated: a tick in which the video is not ready is skipped, the loop never
  halts, and the ticks in which the video is ready extract. For the video that is not
  displayed, with \<^verbatim>\<open>freq\<close> 1: the not-ready tick 1 is skipped and tick 2, ready, throws in
  \<^verbatim>\<open>getImageData\<close>: the tracker is not called and no frame is requested; of three ticks
  the third never comes. The same on a displayed video whose frame in tick 2 is of another
  origin.
\<close>

theorem ready_tick_counterexample:
  "map_option tracked (run_ticks [not_ready 4, good 5] (hidden_task 1)) = Some [] \<and>
   map_option uncaught (run_ticks [not_ready 4, good 5] (hidden_task 1)) =
     Some [DOMException ''IndexSizeError''] \<and>
   map_option frame_requests (run_ticks [not_ready 4, good 5] (hidden_task 1)) = Some [] \<and>
   map_option ticks (run_ticks [good 5, not_ready 6, good 7] (hidden_task 1)) = None \<and>
   map_option tracked (run_ticks [not_ready 4, foreign 5] (video_task 1)) = Some [] \<and>
   map_option frame_requests (run_ticks [not_ready 4, foreign 5] (video_task 1)) = Some []"
  by code_simp

text \<open>
  C6, amended. A video is tracked with \<^verbatim>\<open>freq\<close> a positive integer \<open>N\<close>. After any ticks of
  the loop, a tick in which the video is not ready calls no tracker, relays nothing,
  raises nothing and requests the next animation frame, whatever the video and the
  tracker are. When the video has a width and a height, the tracker carried no relay
  before, and the copies succeed on frames of the page's origin, the tracker has been called in exactly the ticks that are
  multiples of \<open>N\<close> and in which the video was ready, on the frame of that tick, and its
  detections have been relayed to the listeners of the task. When the video has a width
  and a height, the frames are of the page's origin and the tracker never throws, the
  loop runs any number of ticks and a next frame is requested after them.
\<close>

theorem not_ready_tick_skips:
  assumes "0 < N"
    and "one h doc = Inr (Some el)" and "toLowerCase (nodeName el) = ''video''"
    and "opt_freq opts = Some (int N)"
    and "w = fold on_track_add ks (snd (track h (Some t) (Some opts) doc w0))"
  shows "(\<forall>w1 env. run_ticks envs w = Some w1 \<and> frame_requests w1 \<noteq> [] \<and> \<not> ready env \<longrightarrow>
            (\<exists>w2. tick env w1 = Some w2 \<and> tracked w2 = tracked w1 \<and>
               relayed w2 = relayed w1 \<and>
               frame_requests w2 = tl (frame_requests w1) @ [next_request w1] \<and>
               requestId w2 = Some (next_request w1) \<and> uncaught w2 = uncaught w1 \<and>
               count w2 = int (Suc (length envs) mod N))) \<and>
         (0 < offsetWidth el \<and> 0 < offsetHeight el \<and> relays w0 = [] \<and>
          (\<forall>env \<in> set envs. \<not> copy_fault env \<and> \<not> cross_origin env) \<longrightarrow>
            (\<forall>w'. run_ticks envs w = Some w' \<longrightarrow>
               tracked w' = tracked w @
                 map (\<lambda>i. (ticks w + i, Some (frame (envs ! (i - 1))),
                            offsetWidth el, offsetHeight el))
                   (hit_ticks N envs) \<and>
               relayed w' = relayed w @
                 concat (map (\<lambda>i. deliveries t ks (Some (frame (envs ! (i - 1))))
                                    (offsetWidth el) (offsetHeight el))
                   (hit_ticks N envs)))) \<and>
         (0 < offsetWidth el \<and> 0 < offsetHeight el \<and>
          (\<forall>env \<in> set envs. \<not> cross_origin env) \<and> reliable t \<longrightarrow>
            (\<exists>w'. run_ticks envs w = Some w' \<and> frame_requests w' \<noteq> []))"
proof -
  note st = video_started [OF assms(2,3,5)]
  have s: "sampling N w" using assms by (rule video_sampling)
  have f: "frame_requests w \<noteq> []" using st(4) by simp
  have 1: "\<exists>w2. tick env w1 = Some w2 \<and> tracked w2 = tracked w1 \<and>
               relayed w2 = relayed w1 \<and>
               frame_requests w2 = tl (frame_requests w1) @ [next_request w1] \<and>
               requestId w2 = Some (next_request w1) \<and> uncaught w2 = uncaught w1 \<and>
               count w2 = int (Suc (length envs) mod N)"
    if r: "run_ticks envs w = Some w1" and ne: "frame_requests w1 \<noteq> []" and nr: "\<not> ready env"
    for w1 env
  proof -
    from loop_counts [OF s st(2) r]
    have s1: "sampling N w1" and c1: "count w1 = int (length envs mod N)" by simp_all
    from ne obtain q qs where q: "frame_requests w1 = q # qs"
      by (cases "frame_requests w1") simp_all
    from nr have sk: "\<not> ready env \<or> count w1 + 1 \<noteq> int N" by simp
    have "(if count w1 + 1 = int N then 0 else count w1 + 1) = int (Suc (length envs) mod N)"
      unfolding c1 using counter_hits [OF assms(1), of "length envs"]
      by (auto simp: mod_Suc dvd_eq_mod_eq_0)
    with tick_skip [OF s1 q sk] q show ?thesis by auto
  qed
  have 2: "tracked w' = tracked w @
                 map (\<lambda>i. (ticks w + i, Some (frame (envs ! (i - 1))),
                            offsetWidth el, offsetHeight el))
                   (hit_ticks N envs) \<and>
               relayed w' = relayed w @
                 concat (map (\<lambda>i. deliveries t ks (Some (frame (envs ! (i - 1))))
                                    (offsetWidth el) (offsetHeight el))
                   (hit_ticks N envs))"
    if sz: "0 < offsetWidth el" "0 < offsetHeight el" and rl: "relays w0 = []"
      and ok: "\<forall>env \<in> set envs. \<not> copy_fault env \<and> \<not> cross_origin env"
      and run: "run_ticks envs w = Some w'"
    for w'
  proof -
    have r: "readable w" using st(5-7) sz by (simp add: readable_def)
    have k: "relays w = [Reemit (closures w0)]" using st(9) rl by (simp add: relays_def)
    from loop_extracts [OF s st(2) r st(3) k ok run] show ?thesis
      unfolding st(5,6,8) by simp
  qed
  have 3: "\<exists>w'. run_ticks envs w = Some w' \<and> frame_requests w' \<noteq> []"
    if sz: "0 < offsetWidth el" "0 < offsetHeight el"
      and ok: "\<forall>env \<in> set envs. \<not> cross_origin env" and rel: "reliable t"
  proof -
    have r: "readable w" using st(5-7) sz by (simp add: readable_def)
    from loop_alive [OF rel s r st(3) f ok] show ?thesis by blast
  qed
  from 1 2 3 show ?thesis by blast
qed

theorem not_ready_tick_skips_witness:
  "(0::nat) < 1 \<and> one (Node video) empty_document = Inr (Some video) \<and>
   toLowerCase (nodeName video) = ''video'' \<and> opt_freq (with_freq 1) = Some (int 1) \<and>
   0 < offsetWidth video \<and> 0 < offsetHeight video \<and>
   relays (page [] :: (nat, nat) world) = [] \<and> reliable echo \<and>
   map_option tracked
     (run_ticks [good 5, not_ready 6, good 7]
        (fold on_track_add [7]
           (snd (track (Node video) (Some echo) (Some (with_freq 1)) empty_document (page [])))))
     = Some [(1, Some 5, 4, 3), (3, Some 7, 4, 3)] \<and>
   map_option relayed
     (run_ticks [good 5, not_ready 6, good 7]
        (fold on_track_add [7]
           (snd (track (Node video) (Some echo) (Some (with_freq 1)) empty_document (page [])))))
     = Some [(7, 5), (7, 7)] \<and>
   map_option (\<lambda>w. frame_requests w \<noteq> [])
     (run_ticks [good 5, not_ready 6, good 7]
        (fold on_track_add [7]
           (snd (track (Node video) (Some echo) (Some (with_freq 1)) empty_document (page [])))))
     = Some True"
proof -
  let ?w = "fold on_track_add [7]
    (snd (track (Node video) (Some echo) (Some (with_freq 1)) empty_document (page [])))"
  let ?envs = "[good 5, not_ready 6, good 7]"
  have a: "one (Node video) empty_document = Inr (Some video)" by simp
  have b: "toLowerCase (nodeName video) = ''video''" by (simp add: video_def toLowerCase_VIDEO)
  have c: "opt_freq (with_freq 1) = Some (int 1)" by (simp add: with_freq_def)
  have d: "\<forall>env \<in> set ?envs. \<not> copy_fault env \<and> \<not> cross_origin env"
    by (simp add: good_def not_ready_def)
  have d': "\<forall>env \<in> set ?envs. \<not> cross_origin env"
    by (simp add: good_def not_ready_def)
  have e: "reliable echo" by (simp add: reliable_def echo_def)
  have g: "0 < offsetWidth video" "0 < offsetHeight video" by (simp_all add: video_def)
  have p: "relays (page [] :: (nat, nat) world) = []" by (simp add: relays_def page_def)
  have v: "tracked ?w = []" "relayed ?w = []" "ticks ?w = 0" by code_simp+
  have l1: "map (\<lambda>i. (0 + i, Some (frame (?envs ! (i - 1))),
                         offsetWidth video, offsetHeight video))
                (hit_ticks 1 ?envs) =
            [(1, Some 5, 4, 3), (3, Some 7, 4, 3)]"
    by code_simp
  have l2: "concat (map (\<lambda>i. deliveries echo [7] (Some (frame (?envs ! (i - 1))))
                                 (offsetWidth video) (offsetHeight video))
                (hit_ticks 1 ?envs)) =
            [(7, 5), (7, 7)]"
    by code_simp
  note th = not_ready_tick_skips [OF _ a b c refl, where t = echo and ks = "[7]"
      and ?w0.0 = "page []" and envs = ?envs]
  from th [THEN conjunct2, THEN conjunct2] g d' e
  obtain w' where w': "run_ticks ?envs ?w = Some w'" "frame_requests w' \<noteq> []"
    by auto
  from th [THEN conjunct2, THEN conjunct1] g p d w'(1)
  have "tracked w' = [(1, Some 5, 4, 3), (3, Some 7, 4, 3)]" "relayed w' = [(7, 5), (7, 7)]"
    unfolding v l1 l2 by auto
  with w' show ?thesis using a b c e g p by simp
qed

text \<open>
  C2. In a tick in which the video is ready and the copy of the frame fails, no
  detection should be produced. With \<^verbatim>\<open>freq\<close> 1 and a listener on the task's \<^verbatim>\<open>track\<close>
  events, the copy succeeds in tick 1 (frame 5) and fails in tick 2: the fault is dropped
  and the next frame is requested, but \<^verbatim>\<open>trackCanvasInternal_\<close>, which follows the \<^verbatim>\<open>try\<close>
  block, calls the tracker in tick 2 as well, on the frame of tick 1 that the canvas still
  holds, and the detection is relayed a second time. A tick in which the video is not
  ready calls no tracker.
\<close>

theorem copy_fault_tracks_stale_frame:
  "map_option tracked (run_ticks [good 5] (video_task 1)) = Some [(1, Some 5, 4, 3)] \<and>
   map_option relayed (run_ticks [good 5] (video_task 1)) = Some [(7, 5)] \<and>
   map_option tracked (run_ticks [good 5, faulty 6] (video_task 1)) =
     Some [(1, Some 5, 4, 3), (2, Some 5, 4, 3)] \<and>
   map_option relayed (run_ticks [good 5, faulty 6] (video_task 1)) = Some [(7, 5), (7, 5)] \<and>
   map_option signals (run_ticks [good 5, faulty 6] (video_task 1)) =
     Some [''run'', ''track'', ''track''] \<and>
   map_option uncaught (run_ticks [good 5, faulty 6] (video_task 1)) = Some [] \<and>
   map_option frame_requests (run_ticks [good 5, faulty 6] (video_task 1)) = Some [2] \<and>
   map_option tracked (run_ticks [good 5, not_ready 6] (video_task 1)) =
     Some [(1, Some 5, 4, 3)]"
  by code_simp

section \<open>The claims about tracking.track\<close>

lemma toLowerCase_DIV: "toLowerCase ''DIV'' = ''div''"
  by code_simp

text \<open>
  C8. \<^verbatim>\<open>track\<close> without a tracker throws and leaves the page as it was, whatever the
  element (\<^verbatim>\<open>Tracker not specified\<close> when the element resolves); a selector that matches
  nothing throws \<^verbatim>\<open>Element not found\<close>; an element that is no canvas, img or video throws
  \<^verbatim>\<open>Element not supported\<close>; a handle that is \<^verbatim>\<open>null\<close> throws when its node type is read; in
  each case the page is unchanged: no task exists, nothing was extracted, nothing is
  scheduled. The constructor of the task throws without a tracker, and the task it leaves
  does not run.
\<close>

theorem configuration_errors:
  "(\<exists>e. track h None opts doc w = (Inl e, w)) \<and>
   (one h doc = Inr (Some el) \<longrightarrow>
      track h None opts doc w =
        (Inl (Error ''Tracker not specified, try tracking.track(element, new tracking.FaceTracker()).''), w)) \<and>
   (one h doc = Inr None \<longrightarrow>
      track h t opts doc w =
        (Inl (Error ''Element not found, try a different element or selector.''), w)) \<and>
   (one h doc = Inr (Some el) \<and> t \<noteq> None \<and>
    toLowerCase (nodeName el) \<notin> {''canvas'', ''img'', ''video''} \<longrightarrow>
      track h t opts doc w =
        (Inl (Error ''Element not supported, try in a canvas, img, or video.''), w)) \<and>
   fst (new_TrackerTask None w) = Inl (Error ''Tracker instance not specified.'') \<and>
   \<not> running (snd (new_TrackerTask None w)) \<and>
   tracked (snd (new_TrackerTask None w)) = tracked w \<and>
   relayed (snd (new_TrackerTask None w)) = relayed w \<and>
   signals (snd (new_TrackerTask None w)) = signals w \<and>
   frame_requests (snd (new_TrackerTask None w)) = frame_requests w \<and>
   (one h doc = Inl x \<longrightarrow> track h t opts doc w = (Inl x, w))"
proof -
  have 6: "track h t opts doc w = (Inl x, w)" if "one h doc = Inl x"
    using that by (simp add: track_def)
  have 1: "\<exists>e. track h None opts doc w = (Inl e, w)"
    by (cases "one h doc") (auto simp: track_def split: option.splits)
  have 2: "track h None opts doc w =
        (Inl (Error ''Tracker not specified, try tracking.track(element, new tracking.FaceTracker()).''), w)"
    if "one h doc = Inr (Some el)"
    using that by (simp add: track_def)
  have 3: "track h t opts doc w =
        (Inl (Error ''Element not found, try a different element or selector.''), w)"
    if "one h doc = Inr None"
    using that by (simp add: track_def)
  have 4: "track h t opts doc w =
        (Inl (Error ''Element not supported, try in a canvas, img, or video.''), w)"
    if "one h doc = Inr (Some el)" and "t \<noteq> None"
      and "toLowerCase (nodeName el) \<notin> {''canvas'', ''img'', ''video''}"
    using that by (auto simp: track_def Let_def)
  have 5: "fst (new_TrackerTask None w) = Inl (Error ''Tracker instance not specified.'')"
    "\<not> running (snd (new_TrackerTask None w))"
    "tracked (snd (new_TrackerTask None w)) = tracked w"
    "relayed (snd (new_TrackerTask None w)) = relayed w"
    "signals (snd (new_TrackerTask None w)) = signals w"
    "frame_requests (snd (new_TrackerTask None w)) = frame_requests w"
    by (simp_all add: new_TrackerTask_def)
  from 1 2 3 4 5 6 show ?thesis by blast
qed

theorem configuration_errors_witness:
  "one (Node division) empty_document = Inr (Some division) \<and>
   one (Selector ''#video'') empty_document = Inr None \<and>
   Some echo \<noteq> None \<and>
   toLowerCase (nodeName division) \<notin> {''canvas'', ''img'', ''video''} \<and>
   track (Node division) None None empty_document (page [] :: (nat, nat) world) =
     (Inl (Error ''Tracker not specified, try tracking.track(element, new tracking.FaceTracker()).''),
      page []) \<and>
   track (Selector ''#video'') (Some echo) None empty_document (page []) =
     (Inl (Error ''Element not found, try a different element or selector.''), page []) \<and>
   track (Node division) (Some echo) None empty_document (page []) =
     (Inl (Error ''Element not supported, try in a canvas, img, or video.''), page [])"
proof -
  have a: "one (Node division) empty_document = Inr (Some division)" by simp
  have b: "one (Selector ''#video'') empty_document = Inr None" by (simp add: empty_document_def)
  have c: "toLowerCase (nodeName division) \<notin> {''canvas'', ''img'', ''video''}"
    by (simp add: division_def toLowerCase_DIV)
  note x = configuration_errors [of "Node division" None empty_document "page []" division "Some echo"]
  note y = configuration_errors [of "Selector ''#video''" None empty_document "page []" division "Some echo"]
  have n: "Some echo \<noteq> None" by simp
  note x2 = x [THEN conjunct2, THEN conjunct1, rule_format, OF a]
  note x4 = x [THEN conjunct2, THEN conjunct2, THEN conjunct2, THEN conjunct1, rule_format,
      OF conjI [OF a conjI [OF n c]]]
  note y3 = y [THEN conjunct2, THEN conjunct2, THEN conjunct1, rule_format, OF b]
  show ?thesis
    by (intro conjI) (rule a b c n x2 x4 y3)+
qed

text \<open>
  C10. \<^verbatim>\<open>track\<close> on a video with a tracker and no options throws a TypeError when
  \<^verbatim>\<open>trackVideo_\<close> evaluates \<^verbatim>\<open>'freq' in opt_options\<close>: only the working canvas has been
  created, no task is constructed and no animation frame is requested. With an options
  object, whatever it holds, the call returns the task, and \<^verbatim>\<open>freq\<close> is 100 when the
  object has no \<^verbatim>\<open>freq\<close>.
\<close>

theorem video_needs_options:
  assumes "one h doc = Inr (Some el)" and "toLowerCase (nodeName el) = ''video''"
  shows "track h (Some t) None doc w =
           (Inl (TypeError ''Cannot use in operator to search for freq in undefined''),
            w\<lparr>canvas_width := 300, canvas_height := 150, canvas_pixels := None,
              canvas_tainted := False\<rparr>) \<and>
         fst (track h (Some t) (Some opts) doc w) = Inr This \<and>
         freq (snd (track h (Some t) (Some opts) doc w)) =
           (case opt_freq opts of Some f \<Rightarrow> f | None \<Rightarrow> 100)"
proof -
  have "track h (Some t) None doc w =
           (Inl (TypeError ''Cannot use in operator to search for freq in undefined''),
            w\<lparr>canvas_width := 300, canvas_height := 150, canvas_pixels := None,
              canvas_tainted := False\<rparr>)"
    using assms by (simp add: track_def trackVideo_def Let_def)
  with track_video(1,2) [OF assms, of t opts w] show ?thesis by simp
qed

theorem video_needs_options_witness:
  "one (Node video) empty_document = Inr (Some video) \<and>
   toLowerCase (nodeName video) = ''video'' \<and>
   track (Node video) (Some echo) None empty_document (page []) =
     (Inl (TypeError ''Cannot use in operator to search for freq in undefined''),
      (page [])\<lparr>canvas_width := 300, canvas_height := 150, canvas_pixels := None,
        canvas_tainted := False\<rparr>) \<and>
   fst (track (Node video) (Some echo) (Some no_freq) empty_document (page [])) = Inr This \<and>
   freq (snd (track (Node video) (Some echo) (Some no_freq) empty_document (page []))) = 100"
proof -
  have a: "one (Node video) empty_document = Inr (Some video)" by simp
  have b: "toLowerCase (nodeName video) = ''video''" by (simp add: video_def toLowerCase_VIDEO)
  have c: "opt_freq no_freq = None" by (simp add: no_freq_def)
  show ?thesis
    using video_needs_options [OF a b, of echo "page []" no_freq] a b c by simp
qed

text \<open>
  C7. The divisor is the \<^verbatim>\<open>freq\<close> of the options when they have one and 100 when they
  have none; but with no options at all, which the documentation of \<^verbatim>\<open>track\<close> allows
  (\<^verbatim>\<open>tracking.track('#video', tracker)\<close>), the call throws and no loop is started.
\<close>

theorem freq_default_without_options:
  "fst (track (Node video) (Some echo) None empty_document (page [])) =
     Inl (TypeError ''Cannot use in operator to search for freq in undefined'') \<and>
   frame_requests (snd (track (Node video) (Some echo) None empty_document (page []))) = [] \<and>
   freq (snd (track (Node video) (Some echo) (Some no_freq) empty_document (page []))) = 100 \<and>
   freq (snd (track (Node video) (Some echo) (Some (with_freq 3)) empty_document (page []))) = 3"
  by code_simp

end
